theory Spec2Isabelle
  imports Complex_Main "HOL-Library.AList"
begin

section \<open>JavaScript values that the code throws and catches\<close>

text \<open>
  A JavaScript \<^verbatim>\<open>throw\<close> (or a rejected promise) carries an arbitrary value.
  The code under verification reads two properties of a caught value, \<^verbatim>\<open>error.code\<close>
  and \<^verbatim>\<open>error.message\<close>.  An \<^verbatim>\<open>Error\<close> object has a message and, for the
  errors of Node's \<^verbatim>\<open>fs\<close> module, a code such as \<^verbatim>\<open>EEXIST\<close>; reading a property of
  \<^verbatim>\<open>null\<close> or \<^verbatim>\<open>undefined\<close> throws a \<^verbatim>\<open>TypeError\<close>; every other value
  (a string, a number, a plain object) yields \<^verbatim>\<open>undefined\<close> for a property it lacks.
\<close>

datatype thrown =
    Error "string option" string
  | ThrownNull
  | ThrownUndefined
  | ThrownOther string

fun get_code :: "thrown \<Rightarrow> thrown + string option" where
  "get_code (Error c m) = Inr c"
| "get_code ThrownNull = Inl (Error None ''Cannot read properties of null (reading 'code')'')"
| "get_code ThrownUndefined = Inl (Error None ''Cannot read properties of undefined (reading 'code')'')"
| "get_code (ThrownOther v) = Inr None"

fun get_message :: "thrown \<Rightarrow> thrown + string option" where
  "get_message (Error c m) = Inr (Some m)"
| "get_message ThrownNull = Inl (Error None ''Cannot read properties of null (reading 'message')'')"
| "get_message ThrownUndefined = Inl (Error None ''Cannot read properties of undefined (reading 'message')'')"
| "get_message (ThrownOther v) = Inr None"

fun nullish :: "thrown \<Rightarrow> bool" where
  "nullish ThrownNull = True"
| "nullish ThrownUndefined = True"
| "nullish _ = False"

text \<open>Decimal rendering of a non-negative integer inside a template literal.\<close>

definition digit_char :: "nat \<Rightarrow> char" where
  "digit_char d = ''0123456789'' ! d"

function string_of_nat :: "nat \<Rightarrow> string" where
  "string_of_nat n =
     (if n < 10 then [digit_char n] else string_of_nat (n div 10) @ [digit_char (n mod 10)])"
  by pat_completeness auto
termination
  by (relation "measure id") auto

section \<open>TransactionLog (src/transactionLog.ts)\<close>

text \<open>
  A rollback is a zero-argument asynchronous action.  It acts on the state of the world
  around the log (type \<open>'s\<close>: files, the git repository, a test's call recorder) and either
  resolves or rejects with a thrown value.  The actions do not call back into the log that
  is being rolled back.  The logger is observability only and is left out.
\<close>

record ('s, 'd) TransactionOperation =
  type :: string
  timestamp :: int
  details :: 'd
  rollback :: "'s \<Rightarrow> (thrown + unit) \<times> 's"

record ('s, 'd) TransactionLog =
  operations :: "('s, 'd) TransactionOperation list"

definition TransactionLog_new :: "('s, 'd) TransactionLog" where
  "TransactionLog_new = \<lparr>operations = []\<rparr>"

text \<open>\<^verbatim>\<open>record(type, details, rollback)\<close>; \<open>now\<close> is the value of \<^verbatim>\<open>new Date()\<close>.\<close>

definition record_op ::
  "int \<Rightarrow> string \<Rightarrow> 'd \<Rightarrow> ('s \<Rightarrow> (thrown + unit) \<times> 's) \<Rightarrow> ('s, 'd) TransactionLog
     \<Rightarrow> ('s, 'd) TransactionLog" where
  "record_op now ty d rb txlog =
     txlog\<lparr>operations := operations txlog @
        [\<lparr>type = ty, timestamp = now, details = d, rollback = rb\<rparr>]\<rparr>"

text \<open>
  The loop \<^verbatim>\<open>for (let i = this.operations.length - 1; i >= 0; i--)\<close>.  The second
  argument is \<open>i + 1\<close>, so that the loop ends at \<open>0\<close>.  The \<^verbatim>\<open>catch\<close> block evaluates
  \<^verbatim>\<open>error.message\<close> for its txlog line before it pushes the error; when that property
  access throws, the exception leaves the \<^verbatim>\<open>catch\<close> block and the loop with it.
\<close>

fun rollback_loop ::
  "('s, 'd) TransactionOperation list \<Rightarrow> nat \<Rightarrow> thrown list \<Rightarrow> 's
     \<Rightarrow> (thrown + thrown list) \<times> 's" where
  "rollback_loop ops 0 errors s = (Inr errors, s)"
| "rollback_loop ops (Suc i) errors s =
     (case rollback (ops ! i) s of
        (Inr u, s') \<Rightarrow> rollback_loop ops i errors s'
      | (Inl error, s') \<Rightarrow>
          (case get_message error of
             Inl type_error \<Rightarrow> (Inl type_error, s')
           | Inr m \<Rightarrow> rollback_loop ops i (errors @ [error]) s'))"

definition rollbackAll ::
  "('s, 'd) TransactionLog \<Rightarrow> 's \<Rightarrow> (thrown + unit) \<times> ('s, 'd) TransactionLog \<times> 's" where
  "rollbackAll txlog s =
     (case rollback_loop (operations txlog) (length (operations txlog)) [] s of
        (Inl e, s') \<Rightarrow> (Inl e, txlog, s')
      | (Inr errors, s') \<Rightarrow>
          if length errors > 0
          then (Inl (Error None (''Rollback completed with '' @ string_of_nat (length errors)
                   @ '' error(s). See logs for details.'')), txlog, s')
          else (Inr (), txlog\<lparr>operations := []\<rparr>, s'))"

definition clear :: "('s, 'd) TransactionLog \<Rightarrow> ('s, 'd) TransactionLog" where
  "clear txlog = txlog\<lparr>operations := []\<rparr>"

definition count :: "('s, 'd) TransactionLog \<Rightarrow> nat" where
  "count txlog = length (operations txlog)"

text \<open>
  The pass as the specification words it: every operation of a list gets its attempt, in
  the order of the list, whatever became of the attempts before it, and the failures are
  collected.  \<open>rollbackAll\<close> is compared with it on the reversed log.
\<close>

fun attempt_all ::
  "('s, 'd) TransactionOperation list \<Rightarrow> 's \<Rightarrow> thrown list \<times> 's" where
  "attempt_all [] s = ([], s)"
| "attempt_all (op # rest) s =
     (let (r, s') = rollback op s; (es, s'') = attempt_all rest s'
      in ((case r of Inl e \<Rightarrow> [e] | Inr u \<Rightarrow> []) @ es, s''))"

definition never_nullish :: "('s, 'd) TransactionOperation list \<Rightarrow> bool" where
  "never_nullish ops \<longleftrightarrow>
     (\<forall>op \<in> set ops. \<forall>s e s'. rollback op s = (Inl e, s') \<longrightarrow> \<not> nullish e)"

text \<open>
  An operation for examples, after the repository's tests: its rollback appends the
  operation's name to a list of calls and then settles with the given outcome.
\<close>

definition recording_op ::
  "string \<Rightarrow> thrown + unit \<Rightarrow> (string list, unit) TransactionOperation" where
  "recording_op name outcome =
     \<lparr>type = name, timestamp = 0, details = (), rollback = (\<lambda>s. (outcome, s @ [name]))\<rparr>"

section \<open>Node's \<^verbatim>\<open>fs\<close> module, the clock and the timer\<close>

text \<open>
  The lock file lives in a file system that other processes use at the same time.  The
  world holds the file system, the clock (milliseconds since the epoch, the value of
  \<^verbatim>\<open>Date.now()\<close>), and a script \<open>env\<close> of what the rest of the machine does: before
  each call of this process takes effect, the next entry of the script lets time pass, lets
  other processes change the file system, and may make the call fail (permissions, a full
  disk, a missing parent directory).  An empty script is a machine on which nothing else
  happens.  \<open>calls\<close> lists the calls this process has made, oldest first; it is ghost state
  that the code never reads.
\<close>

type_synonym path = string

datatype node = File string | Dir | Special

datatype syscall =
    ExistsSync path
  | ReadFileSync path
  | UnlinkSync path
  | WriteFileSync path string
  | StatSync path
  | SetTimeout rat

record interference =
  elapsed :: nat
  changes :: "(path \<times> node option) list"
  fault :: "(string \<times> string) option"

record world =
  fs :: "path \<Rightarrow> node option"
  clock :: int
  env :: "interference list"
  calls :: "syscall list"

definition apply_changes ::
  "(path \<Rightarrow> node option) \<Rightarrow> (path \<times> node option) list \<Rightarrow> (path \<Rightarrow> node option)" where
  "apply_changes f cs = foldl (\<lambda>g (p, n). g(p := n)) f cs"

definition interfere :: "world \<Rightarrow> (string \<times> string) option \<times> world" where
  "interfere w =
     (case env w of
        [] \<Rightarrow> (None, w)
      | i # rest \<Rightarrow>
          (fault i,
           w\<lparr>fs := apply_changes (fs w) (changes i),
             clock := clock w + int (elapsed i),
             env := rest\<rparr>))"

definition begin_call :: "syscall \<Rightarrow> world \<Rightarrow> (string \<times> string) option \<times> world" where
  "begin_call c w = (case interfere w of (f, w') \<Rightarrow> (f, w'\<lparr>calls := calls w' @ [c]\<rparr>))"

text \<open>The errors of \<^verbatim>\<open>fs\<close> are \<^verbatim>\<open>Error\<close> objects with a \<^verbatim>\<open>code\<close>.\<close>

definition fs_error :: "string \<Rightarrow> string \<Rightarrow> string \<Rightarrow> path \<Rightarrow> thrown" where
  "fs_error code description call p =
     Error (Some code)
       (code @ '': '' @ description @ '', '' @ call @ '' '' @ [CHR 0x27] @ p @ [CHR 0x27])"

text \<open>\<^verbatim>\<open>fs.existsSync\<close> never throws: it answers \<^verbatim>\<open>false\<close> when the lookup fails.\<close>

definition existsSync :: "path \<Rightarrow> world \<Rightarrow> bool \<times> world" where
  "existsSync p w =
     (case begin_call (ExistsSync p) w of
        (Some f, w') \<Rightarrow> (False, w')
      | (None, w') \<Rightarrow> (fs w' p \<noteq> None, w'))"

text \<open>
  \<^verbatim>\<open>fs.readFileSync(p, 'utf-8')\<close>.  Reading a special node (a socket, a device) is
  reported as an I/O error; no property below depends on which.
\<close>

definition readFileSync :: "path \<Rightarrow> world \<Rightarrow> (thrown + string) \<times> world" where
  "readFileSync p w =
     (case begin_call (ReadFileSync p) w of
        (Some (c, m), w') \<Rightarrow> (Inl (Error (Some c) m), w')
      | (None, w') \<Rightarrow>
          (case fs w' p of
             None \<Rightarrow> (Inl (fs_error ''ENOENT'' ''no such file or directory'' ''open'' p), w')
           | Some (File content) \<Rightarrow> (Inr content, w')
           | Some Dir \<Rightarrow> (Inl (fs_error ''EISDIR'' ''illegal operation on a directory'' ''read'' p), w')
           | Some Special \<Rightarrow> (Inl (fs_error ''ENXIO'' ''no such device or address'' ''open'' p), w')))"

definition unlinkSync :: "path \<Rightarrow> world \<Rightarrow> (thrown + unit) \<times> world" where
  "unlinkSync p w =
     (case begin_call (UnlinkSync p) w of
        (Some (c, m), w') \<Rightarrow> (Inl (Error (Some c) m), w')
      | (None, w') \<Rightarrow>
          (case fs w' p of
             None \<Rightarrow> (Inl (fs_error ''ENOENT'' ''no such file or directory'' ''unlink'' p), w')
           | Some Dir \<Rightarrow> (Inl (fs_error ''EISDIR'' ''illegal operation on a directory'' ''unlink'' p), w')
           | Some n \<Rightarrow> (Inr (), w'\<lparr>fs := (fs w')(p := None)\<rparr>)))"

text \<open>\<^verbatim>\<open>fs.writeFileSync(p, data, { flag: 'wx' })\<close>: create exclusively, fail if present.\<close>

definition writeFileSync_wx :: "path \<Rightarrow> string \<Rightarrow> world \<Rightarrow> (thrown + unit) \<times> world" where
  "writeFileSync_wx p data w =
     (case begin_call (WriteFileSync p data) w of
        (Some (c, m), w') \<Rightarrow> (Inl (Error (Some c) m), w')
      | (None, w') \<Rightarrow>
          (case fs w' p of
             Some n \<Rightarrow> (Inl (fs_error ''EEXIST'' ''file already exists'' ''open'' p), w')
           | None \<Rightarrow> (Inr (), w'\<lparr>fs := (fs w')(p := Some (File data))\<rparr>)))"

definition statSync :: "path \<Rightarrow> world \<Rightarrow> (thrown + node) \<times> world" where
  "statSync p w =
     (case begin_call (StatSync p) w of
        (Some (c, m), w') \<Rightarrow> (Inl (Error (Some c) m), w')
      | (None, w') \<Rightarrow>
          (case fs w' p of
             None \<Rightarrow> (Inl (fs_error ''ENOENT'' ''no such file or directory'' ''stat'' p), w')
           | Some n \<Rightarrow> (Inr n, w')))"

fun isDirectory :: "node \<Rightarrow> bool" where
  "isDirectory Dir = True"
| "isDirectory _ = False"

fun isFile :: "node \<Rightarrow> bool" where
  "isFile (File c) = True"
| "isFile _ = False"

text \<open>
  \<^verbatim>\<open>await new Promise(resolve => setTimeout(resolve, delay))\<close>: the process is
  suspended for the whole milliseconds of \<open>delay\<close>, and for whatever the machine adds.
\<close>

definition sleep :: "rat \<Rightarrow> world \<Rightarrow> world" where
  "sleep delay w =
     (case begin_call (SetTimeout delay) w of
        (f, w') \<Rightarrow> w'\<lparr>clock := clock w' + \<lfloor>delay\<rfloor>\<rparr>)"

text \<open>The calls made between two worlds of one run.\<close>

definition new_calls :: "world \<Rightarrow> world \<Rightarrow> syscall list" where
  "new_calls w w' = drop (length (calls w)) (calls w')"

definition quiet :: "world \<Rightarrow> bool" where
  "quiet w \<longleftrightarrow> env w = []"

section \<open>JSON values and the JavaScript runtime\<close>

text \<open>
  \<^verbatim>\<open>JSON.parse\<close>, \<^verbatim>\<open>JSON.stringify\<close>, number conversion of strings and objects,
  \<^verbatim>\<open>path.join\<close>, \<^verbatim>\<open>path.resolve\<close>, \<^verbatim>\<open>process.pid\<close> and \<^verbatim>\<open>os.hostname()\<close>
  belong to the platform, not to this repository: they are parameters, collected in a record.
  \<^verbatim>\<open>JSON.parse\<close> answers \<open>None\<close> where it throws a \<^verbatim>\<open>SyntaxError\<close>.  Converting an
  object to a number can throw (a parsed object may carry a \<^verbatim>\<open>valueOf\<close> key that is no
  function), so \<open>ToNumber_object\<close> has an error case.  A JavaScript number is a double:
  \<^verbatim>\<open>NaN\<close>, one of the two infinities, or a rational that the format represents.
\<close>

datatype jsnum = NaN | Finite rat | PosInfinity | NegInfinity

datatype json =
    JNull
  | JBool bool
  | JNumber jsnum
  | JString string
  | JArray "json list"
  | JObject "(string \<times> json) list"

record runtime =
  JSON_parse :: "string \<Rightarrow> json option"
  JSON_stringify :: "json \<Rightarrow> string"
  ToNumber_object :: "json \<Rightarrow> thrown + jsnum"
  path_join :: "path \<Rightarrow> path \<Rightarrow> path"
  path_resolve :: "path list \<Rightarrow> path"
  process_pid :: nat
  os_hostname :: string

text \<open>\<^verbatim>\<open>existingLock.timestamp\<close>: \<open>None\<close> is \<^verbatim>\<open>undefined\<close>; the last of equal keys wins.\<close>

fun get_timestamp :: "json \<Rightarrow> thrown + json option" where
  "get_timestamp JNull =
     Inl (Error None ''Cannot read properties of null (reading 'timestamp')'')"
| "get_timestamp (JObject kvs) = Inr (map_of (rev kvs) ''timestamp'')"
| "get_timestamp v = Inr None"

fun ToNumber :: "runtime \<Rightarrow> json option \<Rightarrow> thrown + jsnum" where
  "ToNumber rt None = Inr NaN"
| "ToNumber rt (Some JNull) = Inr (Finite 0)"
| "ToNumber rt (Some (JBool b)) = Inr (Finite (if b then 1 else 0))"
| "ToNumber rt (Some (JNumber n)) = Inr n"
| "ToNumber rt (Some v) = ToNumber_object rt v"

text \<open>
  Arithmetic on doubles gives the exact result rounded to the nearest double, ties to the
  even significand (IEEE 754, which ECMAScript prescribes).  \<open>binade a\<close> is the exponent
  \<open>e\<close> with \<open>2\<^sup>e \<le> a < 2\<^sup>e\<^sup>+\<^sup>1\<close>, for \<open>a > 0\<close>; the doubles of that magnitude are the
  multiples of \<open>2\<^sup>e\<^sup>-\<^sup>5\<^sup>2\<close>, and below \<open>2\<^sup>-\<^sup>1\<^sup>0\<^sup>2\<^sup>2\<close> the multiples of \<open>2\<^sup>-\<^sup>1\<^sup>0\<^sup>7\<^sup>4\<close>.  A result
  that rounds to \<open>2\<^sup>1\<^sup>0\<^sup>2\<^sup>4\<close> or more in magnitude is an infinity.  The sign of zero is not
  modelled: no comparison tells the two zeros apart.
\<close>

fun bit_length :: "nat \<Rightarrow> nat" where
  "bit_length n = (if n = 0 then 0 else Suc (bit_length (n div 2)))"

declare bit_length.simps [simp del]

definition binade :: "rat \<Rightarrow> int" where
  "binade a =
     (if 1 \<le> a then int (bit_length (nat \<lfloor>a\<rfloor>)) - 1
      else - int (bit_length (nat (\<lceil>1 / a\<rceil> - 1))))"

definition round_half_even :: "rat \<Rightarrow> int" where
  "round_half_even q =
     (if q - of_int \<lfloor>q\<rfloor> < 1 / 2 then \<lfloor>q\<rfloor>
      else if 1 / 2 < q - of_int \<lfloor>q\<rfloor> then \<lfloor>q\<rfloor> + 1
      else if even \<lfloor>q\<rfloor> then \<lfloor>q\<rfloor> else \<lfloor>q\<rfloor> + 1)"

definition to_double :: "rat \<Rightarrow> jsnum" where
  "to_double x =
     (if x = 0 then Finite 0
      else
        (let ulp = 2 powi (max (binade \<bar>x\<bar>) (- 1022) - 52);
             y = of_int (round_half_even (\<bar>x\<bar> / ulp)) * ulp
         in if 2 ^ 1024 \<le> y then (if 0 < x then PosInfinity else NegInfinity)
            else Finite (if 0 < x then y else - y)))"

text \<open>
  \<^verbatim>\<open>now - x\<close> and \<^verbatim>\<open>x > bound\<close> for a finite \<open>now\<close> and \<open>bound\<close>.  \<open>now\<close> is a value of
  \<^verbatim>\<open>Date.now()\<close>, a whole number of at most \<open>8.64 \<sqdot> 10\<^sup>1\<^sup>5\<close> in magnitude, which is a
  double; the difference is rounded.
\<close>

fun js_minus :: "int \<Rightarrow> jsnum \<Rightarrow> jsnum" where
  "js_minus now NaN = NaN"
| "js_minus now (Finite x) = to_double (of_int now - x)"
| "js_minus now PosInfinity = NegInfinity"
| "js_minus now NegInfinity = PosInfinity"

fun js_gt :: "jsnum \<Rightarrow> int \<Rightarrow> bool" where
  "js_gt NaN bound = False"
| "js_gt (Finite x) bound = (x > of_int bound)"
| "js_gt PosInfinity bound = True"
| "js_gt NegInfinity bound = False"

fun template :: "string option \<Rightarrow> string" where
  "template None = ''undefined''"
| "template (Some s) = s"

section \<open>FileLock (src/util/fileLock.ts)\<close>

record FileLock =
  lockPath :: path
  lockAcquired :: bool
  maxRetries :: nat
  retryDelay :: rat
  maxRetryDelay :: rat
  lockTimeout :: int

definition FileLock_new :: "path \<Rightarrow> FileLock" where
  "FileLock_new p =
     \<lparr>lockPath = p, lockAcquired = False, maxRetries = 100, retryDelay = 100,
      maxRetryDelay = 2000, lockTimeout = 30000\<rparr>"

text \<open>The object \<^verbatim>\<open>lockData\<close> of one attempt, built at clock value \<open>now\<close>.\<close>

definition lockData :: "runtime \<Rightarrow> int \<Rightarrow> json" where
  "lockData rt now =
     JObject [(''pid'', JNumber (Finite (of_nat (process_pid rt)))),
              (''timestamp'', JNumber (Finite (of_int now))),
              (''hostname'', JString (os_hostname rt))]"

text \<open>
  Lines 44 and 45: \<^verbatim>\<open>JSON.parse(lockContent)\<close> and
  \<^verbatim>\<open>Date.now() - existingLock.timestamp\<close>.  \<open>Inl\<close> is an exception of either.
\<close>

definition lockAge :: "runtime \<Rightarrow> string \<Rightarrow> int \<Rightarrow> thrown + jsnum" where
  "lockAge rt lockContent now =
     (case JSON_parse rt lockContent of
        None \<Rightarrow> Inl (Error None ''Unexpected token in JSON'')
      | Some existingLock \<Rightarrow>
          (case get_timestamp existingLock of
             Inl type_error \<Rightarrow> Inl type_error
           | Inr ts \<Rightarrow>
               (case ToNumber rt ts of
                  Inl type_error \<Rightarrow> Inl type_error
                | Inr n \<Rightarrow> Inr (js_minus now n))))"

text \<open>
  Lines 42 to 63, entered when the lock file exists.  An exception of the read leaves the
  block; an exception while parsing or computing the age, and a stale lock, lead to one
  \<^verbatim>\<open>unlinkSync\<close> call, whose own exceptions are swallowed.
\<close>

definition check_stale :: "runtime \<Rightarrow> FileLock \<Rightarrow> world \<Rightarrow> (thrown + unit) \<times> world" where
  "check_stale rt self w =
     (case readFileSync (lockPath self) w of
        (Inl e, w1) \<Rightarrow> (Inl e, w1)
      | (Inr lockContent, w1) \<Rightarrow>
          (case lockAge rt lockContent (clock w1) of
             Inl e \<Rightarrow> (Inr (), snd (unlinkSync (lockPath self) w1))
           | Inr age \<Rightarrow>
               if js_gt age (lockTimeout self)
               then (Inr (), snd (unlinkSync (lockPath self) w1))
               else (Inr (), w1)))"

text \<open>
  What makes an attempt remove an existing lock file: its text, read at time \<open>now\<close>, does
  not parse (or parses to \<^verbatim>\<open>null\<close>), or its age exceeds \<open>lockTimeout\<close>.
\<close>

definition reclaimable :: "runtime \<Rightarrow> FileLock \<Rightarrow> string \<Rightarrow> int \<Rightarrow> bool" where
  "reclaimable rt self content now =
     (case lockAge rt content now of
        Inl e \<Rightarrow> True
      | Inr age \<Rightarrow> js_gt age (lockTimeout self))"

text \<open>Lines 41 to 64: what one attempt does before it tries to create the lock file.\<close>

definition before_create :: "runtime \<Rightarrow> FileLock \<Rightarrow> world \<Rightarrow> (thrown + unit) \<times> world" where
  "before_create rt self w =
     (case existsSync (lockPath self) w of
        (True, w1) \<Rightarrow> check_stale rt self w1
      | (False, w1) \<Rightarrow> (Inr (), w1))"

text \<open>
  The body of the \<^verbatim>\<open>try\<close> block of one attempt, up to the create-exclusive write of
  line 67.  \<^verbatim>\<open>Date.now()\<close> for the lock data is read first, before the file is looked at.
\<close>

definition lock_attempt :: "runtime \<Rightarrow> FileLock \<Rightarrow> world \<Rightarrow> (thrown + unit) \<times> world" where
  "lock_attempt rt self w =
     (let data = lockData rt (clock w) in
      case before_create rt self w of
        (Inl e, w2) \<Rightarrow> (Inl e, w2)
      | (Inr u, w2) \<Rightarrow> writeFileSync_wx (lockPath self) (JSON_stringify rt data) w2)"

text \<open>
  The \<^verbatim>\<open>while\<close> loop of \<^verbatim>\<open>lock()\<close> with its \<^verbatim>\<open>catch\<close> block, and the
  \<^verbatim>\<open>throw\<close> after the loop.
\<close>

function lock_loop ::
  "runtime \<Rightarrow> FileLock \<Rightarrow> nat \<Rightarrow> rat \<Rightarrow> world \<Rightarrow> (thrown + unit) \<times> FileLock \<times> world" where
  "lock_loop rt self attempts currentDelay w =
     (if attempts < maxRetries self then
        (case lock_attempt rt self w of
           (Inr u, w1) \<Rightarrow> (Inr (), self\<lparr>lockAcquired := True\<rparr>, w1)
         | (Inl error, w1) \<Rightarrow>
             (case get_code error of
                Inl type_error \<Rightarrow> (Inl type_error, self, w1)
              | Inr code \<Rightarrow>
                  if code = Some ''EEXIST''
                  then lock_loop rt self (attempts + 1)
                         (min (currentDelay * (3 / 2)) (maxRetryDelay self))
                         (sleep currentDelay w1)
                  else
                    (case get_message error of
                       Inl type_error \<Rightarrow> (Inl type_error, self, w1)
                     | Inr m \<Rightarrow>
                         (Inl (Error None (''Failed to acquire file lock '' @ lockPath self
                                  @ '': '' @ template m)), self, w1))))
      else
        (Inl (Error None (''Failed to acquire file lock after ''
                 @ string_of_nat (maxRetries self) @ '' attempts: '' @ lockPath self)), self, w))"
  by pat_completeness auto
termination
  by (relation "measure (\<lambda>(rt, self, attempts, currentDelay, w). maxRetries self - attempts)") auto

definition lock :: "runtime \<Rightarrow> FileLock \<Rightarrow> world \<Rightarrow> (thrown + unit) \<times> FileLock \<times> world" where
  "lock rt self w = lock_loop rt self 0 (retryDelay self) w"

definition unlock :: "FileLock \<Rightarrow> world \<Rightarrow> (thrown + unit) \<times> FileLock \<times> world" where
  "unlock self w =
     (if \<not> lockAcquired self then (Inr (), self, w)
      else
        (case existsSync (lockPath self) w of
           (ex, w1) \<Rightarrow>
             (case (if ex then unlinkSync (lockPath self) w1 else (Inr (), w1)) of
                (Inr u, w2) \<Rightarrow> (Inr (), self\<lparr>lockAcquired := False\<rparr>, w2)
              | (Inl error, w2) \<Rightarrow>
                  (case get_message error of
                     Inl type_error \<Rightarrow> (Inl type_error, self, w2)
                   | Inr m \<Rightarrow> (Inr (), self\<lparr>lockAcquired := False\<rparr>, w2)))))"

definition isLocked :: "FileLock \<Rightarrow> bool" where
  "isLocked self = lockAcquired self"

section \<open>RepositoryFileLockManager (src/util/fileLock.ts)\<close>

text \<open>
  Strings are sequences of code units below 256.  \<open>is_space\<close> is the class \<^verbatim>\<open>\s\<close> of a
  JavaScript regular expression on them, which is also what \<^verbatim>\<open>trim()\<close> removes:
  tab, line feed, vertical tab, form feed, carriage return, space and no-break space.
  The dot of a regular expression matches every code unit but line feed and carriage return.
\<close>

definition is_space :: "char \<Rightarrow> bool" where
  "is_space c \<longleftrightarrow>
     c \<in> set [CHR 0x09, CHR 0x0A, CHR 0x0B, CHR 0x0C, CHR 0x0D, CHR 0x20, CHR 0xA0]"

definition line_terminator :: "char \<Rightarrow> bool" where
  "line_terminator c \<longleftrightarrow> c \<in> set [CHR 0x0A, CHR 0x0D]"

definition trim :: "string \<Rightarrow> string" where
  "trim s = rev (dropWhile is_space (rev (dropWhile is_space s)))"

text \<open>
  \<^verbatim>\<open>gitFileContent.match(/^gitdir:\s*(.+)$/)\<close>, the value of \<^verbatim>\<open>match[1]\<close>.
  \<open>dot_plus_end\<close> is \<^verbatim>\<open>(.+)$\<close> from a position: the rest of the input, when it is
  not empty and has no line terminator.  \<open>spaces_then\<close> is the greedy \<^verbatim>\<open>\s*\<close> in front
  of it: it takes \<open>k\<close> spaces and gives them back one by one while the rest does not match.
\<close>

definition dot_plus_end :: "string \<Rightarrow> string option" where
  "dot_plus_end r = (if r \<noteq> [] \<and> list_all (\<lambda>c. \<not> line_terminator c) r then Some r else None)"

fun spaces_then :: "nat \<Rightarrow> string \<Rightarrow> string option" where
  "spaces_then 0 r = dot_plus_end r"
| "spaces_then (Suc k) r =
     (case dot_plus_end (drop (Suc k) r) of
        Some g \<Rightarrow> Some g
      | None \<Rightarrow> spaces_then k r)"

definition match_gitdir :: "string \<Rightarrow> string option" where
  "match_gitdir s =
     (if take 7 s = ''gitdir:''
      then spaces_then (length (takeWhile is_space (drop 7 s))) (drop 7 s)
      else None)"

text \<open>The body of the \<^verbatim>\<open>try\<close> block of \<^verbatim>\<open>resolveGitDirectory\<close>; \<open>Inr None\<close> is
  leaving the block without a \<^verbatim>\<open>return\<close>.\<close>

definition resolve_try ::
  "runtime \<Rightarrow> path \<Rightarrow> path \<Rightarrow> world \<Rightarrow> (thrown + path option) \<times> world" where
  "resolve_try rt repoPath gitPath w =
     (case statSync gitPath w of
        (Inl e, w1) \<Rightarrow> (Inl e, w1)
      | (Inr stat, w1) \<Rightarrow>
          if isDirectory stat then (Inr (Some gitPath), w1)
          else if isFile stat then
            (case readFileSync gitPath w1 of
               (Inl e, w2) \<Rightarrow> (Inl e, w2)
             | (Inr content, w2) \<Rightarrow>
                 (let gitFileContent = trim content;
                      invalid = (Inl (Error None (''Invalid .git file format in '' @ gitPath
                                    @ '': '' @ gitFileContent)), w2)
                  in case match_gitdir gitFileContent of
                       Some m1 \<Rightarrow>
                         if m1 \<noteq> [] then
                           (let gitDirPath = path_resolve rt [repoPath, m1] in
                            case existsSync gitDirPath w2 of
                              (False, w3) \<Rightarrow>
                                (Inl (Error None (''Submodule git directory does not exist: ''
                                         @ gitDirPath)), w3)
                            | (True, w3) \<Rightarrow> (Inr (Some gitDirPath), w3))
                         else invalid
                     | None \<Rightarrow> invalid))
          else (Inr None, w1))"

definition resolveGitDirectory :: "runtime \<Rightarrow> path \<Rightarrow> world \<Rightarrow> (thrown + path) \<times> world" where
  "resolveGitDirectory rt repoPath w =
     (let gitPath = path_join rt repoPath ''.git'' in
      case resolve_try rt repoPath gitPath w of
        (Inr (Some dir), w1) \<Rightarrow> (Inr dir, w1)
      | (Inr None, w1) \<Rightarrow>
          (Inl (Error None (''No .git directory or file found in '' @ repoPath)), w1)
      | (Inl error, w1) \<Rightarrow>
          (case get_code error of
             Inl type_error \<Rightarrow> (Inl type_error, w1)
           | Inr code \<Rightarrow>
               if code = Some ''ENOENT''
               then (Inl (Error None (''No .git directory or file found in '' @ repoPath)), w1)
               else
                 (case get_message error of
                    Inl type_error \<Rightarrow> (Inl type_error, w1)
                  | Inr m \<Rightarrow>
                      (Inl (Error None (''Failed to resolve git directory for '' @ repoPath
                               @ '': '' @ template m)), w1))))"

text \<open>
  The \<^verbatim>\<open>Map\<close> of locks keeps insertion order: an association list.  A lock object is
  referred to by its key.  Registering the exit handlers is recorded by the flag alone.
\<close>

record RepositoryFileLockManager =
  locks :: "(path \<times> FileLock) list"
  cleanupRegistered :: bool

definition RepositoryFileLockManager_new :: RepositoryFileLockManager where
  "RepositoryFileLockManager_new = \<lparr>locks = [], cleanupRegistered = False\<rparr>"

definition getRepositoryLock ::
  "runtime \<Rightarrow> RepositoryFileLockManager \<Rightarrow> path \<Rightarrow> world
     \<Rightarrow> (thrown + path) \<times> RepositoryFileLockManager \<times> world" where
  "getRepositoryLock rt mgr repoPath w =
     (let normalizedPath = path_resolve rt [repoPath] in
      if map_of (locks mgr) normalizedPath = None then
        (case resolveGitDirectory rt normalizedPath w of
           (Inl e, w1) \<Rightarrow> (Inl e, mgr, w1)
         | (Inr gitDirPath, w1) \<Rightarrow>
             (let lp = path_join rt gitDirPath ''kodrdriv.lock'' in
              (Inr normalizedPath,
               mgr\<lparr>locks := AList.update normalizedPath (FileLock_new lp) (locks mgr),
                   cleanupRegistered := True\<rparr>,
               w1)))
      else (Inr normalizedPath, mgr, w))"

text \<open>
  \<^verbatim>\<open>withGitLock(repoPath, operation)\<close>.  The operation is an asynchronous action on the
  world that resolves with a value or rejects.  \<^verbatim>\<open>finally\<close> runs \<^verbatim>\<open>unlock\<close> on both
  ways out; an exception of the \<^verbatim>\<open>finally\<close> block would replace the operation's outcome.
\<close>

definition withGitLock ::
  "runtime \<Rightarrow> RepositoryFileLockManager \<Rightarrow> path \<Rightarrow> (world \<Rightarrow> (thrown + 'a) \<times> world) \<Rightarrow> world
     \<Rightarrow> (thrown + 'a) \<times> RepositoryFileLockManager \<times> world" where
  "withGitLock rt mgr repoPath operation w =
     (case getRepositoryLock rt mgr repoPath w of
        (Inl e, mgr1, w1) \<Rightarrow> (Inl e, mgr1, w1)
      | (Inr key, mgr1, w1) \<Rightarrow>
          (case map_of (locks mgr1) key of
             None \<Rightarrow>
               (Inl (Error None ''Cannot read properties of undefined (reading 'lock')''), mgr1, w1)
           | Some lk \<Rightarrow>
               (case lock rt lk w1 of
                  (Inl e, lk2, w2) \<Rightarrow>
                    (Inl e, mgr1\<lparr>locks := AList.update key lk2 (locks mgr1)\<rparr>, w2)
                | (Inr u, lk2, w2) \<Rightarrow>
                    (case operation w2 of
                       (result, w3) \<Rightarrow>
                         (case unlock lk2 w3 of
                            (Inl e, lk4, w4) \<Rightarrow>
                              (Inl e, mgr1\<lparr>locks := AList.update key lk4 (locks mgr1)\<rparr>, w4)
                          | (Inr v, lk4, w4) \<Rightarrow>
                              (result, mgr1\<lparr>locks := AList.update key lk4 (locks mgr1)\<rparr>, w4))))))"

text \<open>\<^verbatim>\<open>destroy()\<close>: unlock every lock in insertion order, then empty the map.\<close>

fun unlock_all :: "FileLock list \<Rightarrow> world \<Rightarrow> (thrown + unit) \<times> world" where
  "unlock_all [] w = (Inr (), w)"
| "unlock_all (lk # rest) w =
     (case unlock lk w of
        (Inl e, lk', w') \<Rightarrow> (Inl e, w')
      | (Inr u, lk', w') \<Rightarrow> unlock_all rest w')"

definition destroy ::
  "RepositoryFileLockManager \<Rightarrow> world \<Rightarrow> (thrown + unit) \<times> RepositoryFileLockManager \<times> world" where
  "destroy mgr w =
     (case unlock_all (map snd (locks mgr)) w of
        (Inl e, w') \<Rightarrow> (Inl e, mgr, w')
      | (Inr u, w') \<Rightarrow> (Inr (), mgr\<lparr>locks := []\<rparr>, w'))"

section \<open>Reading a trace; the backoff of the specification\<close>

text \<open>The delays of the timer calls in a trace, in order.\<close>

fun delays :: "syscall list \<Rightarrow> rat list" where
  "delays [] = []"
| "delays (SetTimeout d # cs) = d # delays cs"
| "delays (c # cs) = delays cs"

text \<open>The time asked of the timer in a trace: the whole milliseconds of each delay.\<close>

definition time_slept :: "syscall list \<Rightarrow> int" where
  "time_slept cs = sum_list (map (\<lambda>d. \<lfloor>d\<rfloor>) (delays cs))"

text \<open>Every attempt of \<open>lock\<close> starts with the one \<^verbatim>\<open>existsSync\<close> call it makes.\<close>

fun attempts_made :: "syscall list \<Rightarrow> nat" where
  "attempts_made [] = 0"
| "attempts_made (ExistsSync p # cs) = Suc (attempts_made cs)"
| "attempts_made (c # cs) = attempts_made cs"

text \<open>
  The delay before retry \<open>k\<close> as the specification words it: it starts at the initial
  delay and grows by the factor 1.5 with each retry, capped at the maximum delay.
\<close>

fun backoff :: "rat \<Rightarrow> rat \<Rightarrow> nat \<Rightarrow> rat" where
  "backoff initial cap 0 = initial"
| "backoff initial cap (Suc k) = min (backoff initial cap k * (3 / 2)) cap"

definition timeout_error :: "FileLock \<Rightarrow> thrown" where
  "timeout_error self =
     Error None (''Failed to acquire file lock after '' @ string_of_nat (maxRetries self)
        @ '' attempts: '' @ lockPath self)"

definition fatal_error :: "FileLock \<Rightarrow> string \<Rightarrow> thrown" where
  "fatal_error self m =
     Error None (''Failed to acquire file lock '' @ lockPath self @ '': '' @ m)"

section \<open>Several processes on one lock path\<close>

text \<open>
  Processes that call \<open>lock\<close>, work under the lock, and call \<open>unlock\<close>, all on one lock
  path, run interleaved: between any two calls of one process the others may make theirs.
  Each process is at a point of the code of \<^verbatim>\<open>lock()\<close> or \<^verbatim>\<open>unlock()\<close>, with the values
  of its local variables: the attempt count, the current delay, and the time stamp read for
  its lock data at the start of the attempt.  A step of a process is one call to the file
  system, together with the computation that follows it up to the next call.  \<open>catch_block\<close>
  is the \<^verbatim>\<open>catch\<close> block of \<^verbatim>\<open>lock()\<close>; \<open>loop_head\<close> is the test of the
  \<^verbatim>\<open>while\<close> loop with the \<^verbatim>\<open>Date.now()\<close> that opens an attempt.  A sleeping process
  may be woken at any time, which only adds behaviours.  A process at \<open>Holding\<close> has returned
  from \<^verbatim>\<open>lock()\<close> and its next step enters \<^verbatim>\<open>unlock()\<close>; one that has released, or whose
  \<^verbatim>\<open>lock()\<close> has thrown, may call \<^verbatim>\<open>lock()\<close> again.
\<close>

datatype pc =
    Idle
  | AtExists nat rat int
  | AtRead nat rat int
  | AtAge nat rat int string
  | AtUnlink nat rat int
  | AtWrite nat rat int
  | Sleeping nat rat
  | Holding
  | UnlockAtExists
  | UnlockAtUnlink
  | Released
  | Failed thrown

definition loop_head :: "FileLock \<Rightarrow> nat \<Rightarrow> rat \<Rightarrow> int \<Rightarrow> pc" where
  "loop_head self attempts currentDelay t =
     (if attempts < maxRetries self then AtExists attempts currentDelay t
      else Failed (timeout_error self))"

definition catch_block :: "FileLock \<Rightarrow> nat \<Rightarrow> rat \<Rightarrow> thrown \<Rightarrow> pc" where
  "catch_block self attempts currentDelay error =
     (case get_code error of
        Inl type_error \<Rightarrow> Failed type_error
      | Inr code \<Rightarrow>
          if code = Some ''EEXIST'' then Sleeping (attempts + 1) currentDelay
          else
            (case get_message error of
               Inl type_error \<Rightarrow> Failed type_error
             | Inr m \<Rightarrow> Failed (fatal_error self (template m))))"

text \<open>
  One step of a process at \<open>p\<close>, with the lock file's content \<open>file\<close> (\<open>None\<close>: no lock
  file) and the clock at \<open>t\<close>; \<open>f\<close> is the fault of the call, if it is to fail of itself.
  The result is the new point and the new content of the lock file.
\<close>

fun act ::
  "runtime \<Rightarrow> FileLock \<Rightarrow> (string \<times> string) option \<Rightarrow> pc \<Rightarrow> string option \<Rightarrow> int
     \<Rightarrow> pc \<times> string option" where
  "act rt self f Idle file t = (loop_head self 0 (retryDelay self) t, file)"
| "act rt self f (AtExists a d t0) file t =
     (if f = None \<and> file \<noteq> None then AtRead a d t0 else AtWrite a d t0, file)"
| "act rt self f (AtRead a d t0) file t =
     (case f of
        Some (c, m) \<Rightarrow> (catch_block self a d (Error (Some c) m), file)
      | None \<Rightarrow>
          (case file of
             None \<Rightarrow>
               (catch_block self a d
                  (fs_error ''ENOENT'' ''no such file or directory'' ''open'' (lockPath self)), file)
           | Some content \<Rightarrow> (AtAge a d t0 content, file)))"
| "act rt self f (AtAge a d t0 content) file t =
     (if reclaimable rt self content t then AtUnlink a d t0 else AtWrite a d t0, file)"
| "act rt self f (AtUnlink a d t0) file t = (AtWrite a d t0, if f = None then None else file)"
| "act rt self f (AtWrite a d t0) file t =
     (case f of
        Some (c, m) \<Rightarrow> (catch_block self a d (Error (Some c) m), file)
      | None \<Rightarrow>
          (case file of
             Some content \<Rightarrow>
               (catch_block self a d
                  (fs_error ''EEXIST'' ''file already exists'' ''open'' (lockPath self)), file)
           | None \<Rightarrow> (Holding, Some (JSON_stringify rt (lockData rt t0)))))"
| "act rt self f (Sleeping a d) file t =
     (loop_head self a (min (d * (3 / 2)) (maxRetryDelay self)) t, file)"
| "act rt self f Holding file t = (UnlockAtExists, file)"
| "act rt self f UnlockAtExists file t =
     (if f = None \<and> file \<noteq> None then UnlockAtUnlink else Released, file)"
| "act rt self f UnlockAtUnlink file t = (Released, if f = None then None else file)"
| "act rt self f Released file t = (loop_head self 0 (retryDelay self) t, file)"
| "act rt self f (Failed e) file t = (loop_head self 0 (retryDelay self) t, file)"

text \<open>
  The machine: the lock file, the clock, and the processes by number.  An event is a step
  of one process or the passing of time.
\<close>

record machine =
  lock_file :: "string option"
  mclock :: int
  procs :: "pc list"

datatype event = Act nat "(string \<times> string) option" | Tick nat

definition mstep :: "(nat \<Rightarrow> runtime) \<Rightarrow> FileLock \<Rightarrow> machine \<Rightarrow> event \<Rightarrow> machine" where
  "mstep rts self s ev =
     (case ev of
        Tick n \<Rightarrow> s\<lparr>mclock := mclock s + int n\<rparr>
      | Act i f \<Rightarrow>
          if i < length (procs s) then
            (case act (rts i) self f (procs s ! i) (lock_file s) (mclock s) of
               (p, file) \<Rightarrow> s\<lparr>lock_file := file, procs := (procs s)[i := p]\<rparr>)
          else s)"

definition mrun :: "(nat \<Rightarrow> runtime) \<Rightarrow> FileLock \<Rightarrow> machine \<Rightarrow> event list \<Rightarrow> machine" where
  "mrun rts self s evs = foldl (mstep rts self) s evs"

definition all_idle :: "nat \<Rightarrow> int \<Rightarrow> machine" where
  "all_idle n t = \<lparr>lock_file = None, mclock = t, procs = replicate n Idle\<rparr>"

text \<open>
  A process owns the lock from its successful create-exclusive write until its \<open>unlock\<close> has
  made its last call; it works under the lock while it is at \<open>Holding\<close>.  A process reclaims
  when it has decided to remove the lock file it read.
\<close>

fun owns :: "pc \<Rightarrow> bool" where
  "owns Holding = True"
| "owns UnlockAtExists = True"
| "owns UnlockAtUnlink = True"
| "owns p = False"




text \<open>
  One attempt of a process left to itself: its steps, without faults and with the clock
  standing at \<open>t\<close>, until it has left the attempt.  An attempt makes at most five steps.
\<close>

fun in_attempt :: "pc \<Rightarrow> bool" where
  "in_attempt (AtExists a d t0) = True"
| "in_attempt (AtRead a d t0) = True"
| "in_attempt (AtAge a d t0 content) = True"
| "in_attempt (AtUnlink a d t0) = True"
| "in_attempt (AtWrite a d t0) = True"
| "in_attempt p = False"

fun solo :: "nat \<Rightarrow> runtime \<Rightarrow> FileLock \<Rightarrow> pc \<Rightarrow> string option \<Rightarrow> int \<Rightarrow> pc \<times> string option" where
  "solo 0 rt self p file t = (p, file)"
| "solo (Suc n) rt self p file t =
     (if in_attempt p then
        (case act rt self None p file t of (p1, file1) \<Rightarrow> solo n rt self p1 file1 t)
      else (p, file))"

definition file_at :: "path \<Rightarrow> world \<Rightarrow> string option" where
  "file_at p w = (case fs w p of Some (File content) \<Rightarrow> Some content | _ \<Rightarrow> None)"

section \<open>Worlds for examples\<close>

definition world_with :: "(path \<times> node) list \<Rightarrow> int \<Rightarrow> interference list \<Rightarrow> world" where
  "world_with files now script = \<lparr>fs = map_of files, clock = now, env = script, calls = []\<rparr>"

definition nothing :: interference where
  "nothing = \<lparr>elapsed = 0, changes = [], fault = None\<rparr>"

definition demo_lock_path :: path where
  "demo_lock_path = ''/repo/.git/kodrdriv.lock''"

definition held_lock :: FileLock where
  "held_lock = (FileLock_new demo_lock_path)\<lparr>lockAcquired := True\<rparr>"

text \<open>
  A runtime for examples.  \<open>render_lock\<close> writes lock data the way
  \<^verbatim>\<open>JSON.stringify(lockData, null, 2)\<close> lays it out; \<^verbatim>\<open>JSON.parse\<close> is a table of the
  texts an example needs, and every other text counts as unparseable.  Paths are POSIX
  paths: \<open>posix_normalize\<close> drops empty and \<^verbatim>\<open>.\<close> segments and resolves \<^verbatim>\<open>..\<close>
  segments, \<open>posix_resolve\<close> starts from the working directory \<^verbatim>\<open>/work\<close> and restarts
  at every absolute argument.
\<close>

fun split_segments :: "string \<Rightarrow> string list" where
  "split_segments [] = [[]]"
| "split_segments (c # cs) =
     (if c = CHR ''/'' then [] # split_segments cs
      else (case split_segments cs of
              seg # segs \<Rightarrow> (c # seg) # segs
            | [] \<Rightarrow> [[c]]))"

fun join_segments :: "string list \<Rightarrow> string" where
  "join_segments [] = []"
| "join_segments [seg] = seg"
| "join_segments (seg # segs) = seg @ ''/'' @ join_segments segs"

definition resolve_segment :: "bool \<Rightarrow> string list \<Rightarrow> string \<Rightarrow> string list" where
  "resolve_segment absolute acc seg =
     (if seg = [] \<or> seg = ''.'' then acc
      else if seg = ''..'' then
        (if acc = [] \<or> last acc = ''..'' then (if absolute then acc else acc @ [seg])
         else butlast acc)
      else acc @ [seg])"

definition posix_normalize :: "string \<Rightarrow> string" where
  "posix_normalize p =
     (let absolute = (take 1 p = ''/'');
          segs = foldl (resolve_segment absolute) [] (split_segments p)
      in if absolute then ''/'' @ join_segments segs
         else if segs = [] then ''.'' else join_segments segs)"

definition posix_join :: "path \<Rightarrow> path \<Rightarrow> path" where
  "posix_join a b = posix_normalize (a @ ''/'' @ b)"

definition posix_resolve :: "path list \<Rightarrow> path" where
  "posix_resolve ps =
     posix_normalize (foldl (\<lambda>acc q. if take 1 q = ''/'' then q else acc @ ''/'' @ q) ''/work'' ps)"

definition quoted :: "string \<Rightarrow> string" where
  "quoted s = [CHR 0x22] @ s @ [CHR 0x22]"

fun render_number :: "jsnum \<Rightarrow> string" where
  "render_number (Finite x) = string_of_nat (nat \<lfloor>x\<rfloor>)"
| "render_number n = ''null''"

fun render_lock :: "json \<Rightarrow> string" where
  "render_lock (JObject [(k1, JNumber p), (k2, JNumber t), (k3, JString h)]) =
     ''{'' @ [CHR 0x0A] @ ''  '' @ quoted k1 @ '': '' @ render_number p @ '','' @ [CHR 0x0A]
       @ ''  '' @ quoted k2 @ '': '' @ render_number t @ '','' @ [CHR 0x0A]
       @ ''  '' @ quoted k3 @ '': '' @ quoted h @ [CHR 0x0A] @ ''}''"
| "render_lock v = ''null''"

definition demo_runtime :: "(string \<times> json) list \<Rightarrow> runtime" where
  "demo_runtime table =
     \<lparr>JSON_parse = map_of table,
      JSON_stringify = render_lock,
      ToNumber_object = (\<lambda>v. Inr NaN),
      path_join = posix_join,
      path_resolve = posix_resolve,
      process_pid = 4242,
      os_hostname = ''build-host''\<rparr>"

text \<open>The lock data of another process, recorded at time \<open>t\<close>, and its text.\<close>

definition other_lock :: "int \<Rightarrow> json" where
  "other_lock t =
     JObject [(''pid'', JNumber (Finite 17)), (''timestamp'', JNumber (Finite (of_int t))),
              (''hostname'', JString ''other-host'')]"

definition other_runtime :: "int \<Rightarrow> runtime" where
  "other_runtime t = demo_runtime [(render_lock (other_lock t), other_lock t)]"

text \<open>
  A world in which another process holds the lock and its lock file stays young for the
  whole run: the file's time stamp lies ahead of this machine's clock.
\<close>

definition contended_world :: world where
  "contended_world =
     world_with [(demo_lock_path, File (render_lock (other_lock 500000)))] 0 []"

text \<open>
  A world with nothing else going on, in which the lock file was written by another process
  at time \<open>t\<close> and the clock shows \<open>now\<close>; and one whose lock file holds a text that is
  no JSON.
\<close>

definition locked_by_other :: "int \<Rightarrow> int \<Rightarrow> world" where
  "locked_by_other t now =
     world_with [(demo_lock_path, File (render_lock (other_lock t)))] now []"

definition garbled_lock :: "int \<Rightarrow> world" where
  "garbled_lock now = world_with [(demo_lock_path, File ''{ pid: 17, timest'')] now []"

text \<open>
  A repository at \<^verbatim>\<open>/repo\<close> with an ordinary \<^verbatim>\<open>.git\<close> directory (and further files),
  an operation that throws, and an operation that leaves a mark in the file system.
\<close>

definition repo_world :: "(path \<times> node) list \<Rightarrow> int \<Rightarrow> world" where
  "repo_world files now = world_with ((''/repo/.git'', Dir) # files) now []"

definition failing_operation :: "world \<Rightarrow> (thrown + unit) \<times> world" where
  "failing_operation w = (Inl (Error None ''operation failed''), w)"

definition marking_operation :: "world \<Rightarrow> (thrown + unit) \<times> world" where
  "marking_operation w = (Inr (), w\<lparr>fs := (fs w)(''/repo/mark'' \<mapsto> File ''done'')\<rparr>)"

text \<open>
  A submodule at \<^verbatim>\<open>/repo/sub\<close>: its \<^verbatim>\<open>.git\<close> is a file with the given content.
\<close>

definition submodule_world :: "string \<Rightarrow> (path \<times> node) list \<Rightarrow> world" where
  "submodule_world content files =
     world_with ((''/repo/sub/.git'', File content) # files) 0 []"

text \<open>
  Two processes on one lock path.  The first runs with the runtime \<open>demo_runtime []\<close>; the
  second has another pid and host name, and its \<^verbatim>\<open>JSON.parse\<close> reads the lock file that
  the first writes at time 0.  \<open>time_passes\<close> is the machine idling between two calls.
\<close>

definition second_runtime :: runtime where
  "second_runtime =
     (demo_runtime [(render_lock (lockData (demo_runtime []) 0), lockData (demo_runtime []) 0)])
       \<lparr>process_pid := 17, os_hostname := ''other-host''\<rparr>"


text \<open>Two processes: the first with the example runtime, the second on another host.\<close>

definition two_runtimes :: "nat \<Rightarrow> runtime" where
  "two_runtimes i = (if i = 0 then demo_runtime [] else second_runtime)"

text \<open>
  A race of two reclaimers as one of them sees it.  The lock file was written at time 0 and
  the clock shows 30001.  After this process has found and read the file, and before its
  next call takes effect, another process removes the file and writes its own, with the time
  stamp 30001.  The runtime parses both texts.
\<close>

definition race_runtime :: runtime where
  "race_runtime =
     demo_runtime [(render_lock (other_lock 0), other_lock 0),
                   (render_lock (other_lock 30001), other_lock 30001)]"

definition race_world :: world where
  "race_world =
     world_with [(demo_lock_path, File (render_lock (other_lock 0)))] 30001
       [nothing, nothing,
        \<lparr>elapsed = 0,
          changes = [(demo_lock_path, Some (File (render_lock (other_lock 30001))))],
          fault = None\<rparr>]"

text \<open>
  A third process, whose \<^verbatim>\<open>JSON.parse\<close> reads the lock files of the other two.
\<close>

definition third_runtime :: runtime where
  "third_runtime =
     (demo_runtime [(render_lock (lockData (demo_runtime []) 0), lockData (demo_runtime []) 0),
                    (render_lock (lockData second_runtime 30001), lockData second_runtime 30001)])
       \<lparr>process_pid := 18, os_hostname := ''third-host''\<rparr>"

definition three_runtimes :: "nat \<Rightarrow> runtime" where
  "three_runtimes i =
     (if i = 0 then demo_runtime [] else if i = 1 then second_runtime else third_runtime)"


section \<open>Properties of the transaction log\<close>

lemma get_message_not_nullish: "\<not> nullish e \<Longrightarrow> \<exists>m. get_message e = Inr m"
  by (cases e) auto

lemma rollback_loop_attempt_all:
  assumes "never_nullish ops" and "n \<le> length ops"
  shows "rollback_loop ops n errs s =
           (Inr (errs @ fst (attempt_all (rev (take n ops)) s)),
            snd (attempt_all (rev (take n ops)) s))"
  using assms(2)
proof (induction n arbitrary: errs s)
  case 0
  then show ?case by simp
next
  case (Suc n)
  then have n: "n < length ops" and le: "n \<le> length ops" by simp_all
  have tk: "rev (take (Suc n) ops) = ops ! n # rev (take n ops)"
    using n by (simp add: take_Suc_conv_app_nth)
  obtain r s' where r: "rollback (ops ! n) s = (r, s')" by (cases "rollback (ops ! n) s")
  show ?case
  proof (cases r)
    case (Inr u)
    with r tk Suc.IH[OF le] show ?thesis by (simp add: split_beta)
  next
    case (Inl e)
    have "ops ! n \<in> set ops" using n by simp
    with assms(1) r Inl have "\<not> nullish e" unfolding never_nullish_def by blast
    then obtain m where "get_message e = Inr m" using get_message_not_nullish by blast
    with r tk Inl Suc.IH[OF le] show ?thesis by (simp add: split_beta)
  qed
qed

lemma attempt_all_state:
  "snd (attempt_all xs s) = foldl (\<lambda>s op. snd (rollback op s)) s xs"
  by (induction xs arbitrary: s) (simp_all add: split_beta)

text \<open>
  As long as no rollback rejects with \<^verbatim>\<open>null\<close> or \<^verbatim>\<open>undefined\<close>, \<open>rollbackAll\<close> is the
  pass of the specification over the reversed log: every rollback is attempted, most
  recent first; \<open>k > 0\<close> failures give one error that reports \<open>k\<close> and leave the log as it
  was; no failure empties the log.
\<close>

lemma rollbackAll_non_nullish:
  assumes "never_nullish (operations txlog)"
  shows "rollbackAll txlog s =
     (let (errs, s') = attempt_all (rev (operations txlog)) s
      in if errs = [] then (Inr (), txlog\<lparr>operations := []\<rparr>, s')
         else (Inl (Error None (''Rollback completed with '' @ string_of_nat (length errs)
                   @ '' error(s). See logs for details.'')), txlog, s'))"
  using rollback_loop_attempt_all[OF assms order_refl, of "[]" s]
  by (simp add: rollbackAll_def split_beta)

text \<open>The two examples of the specification and of the tests.\<close>

lemma rollbackAll_reverse_order_example:
  "rollbackAll \<lparr>operations = [recording_op ''op1'' (Inr ()), recording_op ''op2'' (Inr ()),
       recording_op ''op3'' (Inr ())]\<rparr> []
     = (Inr (), \<lparr>operations = []\<rparr>, [''op3'', ''op2'', ''op1''])"
  by (simp add: rollbackAll_def recording_op_def numeral_3_eq_3)

lemma rollbackAll_one_failure_example:
  "rollbackAll \<lparr>operations = [recording_op ''op1'' (Inr ()),
       recording_op ''op2'' (Inl (Error None ''Rollback 2 failed'')),
       recording_op ''op3'' (Inr ())]\<rparr> []
     = (Inl (Error None ''Rollback completed with 1 error(s). See logs for details.''),
        \<lparr>operations = [recording_op ''op1'' (Inr ()),
           recording_op ''op2'' (Inl (Error None ''Rollback 2 failed'')),
           recording_op ''op3'' (Inr ())]\<rparr>,
        [''op3'', ''op2'', ''op1''])"
  by (simp add: rollbackAll_def recording_op_def numeral_3_eq_3 digit_char_def)

text \<open>
  C2.  \<open>rollbackAll\<close> is to attempt every rollback even when earlier ones fail, and then
  to raise one aggregate error with the number of failures.  It does not when a rollback
  rejects with \<^verbatim>\<open>undefined\<close> (\<^verbatim>\<open>() => Promise.reject()\<close>): the \<^verbatim>\<open>catch\<close> block reads
  \<^verbatim>\<open>error.message\<close>, that read throws a \<^verbatim>\<open>TypeError\<close>, and the pass ends there.  With
  \<open>op1\<close>, \<open>op2\<close>, \<open>op3\<close> recorded and \<open>op2\<close> rejecting so, the rollbacks of \<open>op3\<close> and \<open>op2\<close>
  run, the rollback of \<open>op1\<close> never does, and the caller gets the \<^verbatim>\<open>TypeError\<close> in place of
  the aggregate error.
\<close>

theorem rollbackAll_undefined_rejection_ends_pass:
  "rollbackAll \<lparr>operations = [recording_op ''op1'' (Inr ()),
       recording_op ''op2'' (Inl ThrownUndefined),
       recording_op ''op3'' (Inr ())]\<rparr> []
     = (Inl (Error None ''Cannot read properties of undefined (reading 'message')''),
        \<lparr>operations = [recording_op ''op1'' (Inr ()),
           recording_op ''op2'' (Inl ThrownUndefined),
           recording_op ''op3'' (Inr ())]\<rparr>,
        [''op3'', ''op2''])"
  by (simp add: rollbackAll_def recording_op_def numeral_3_eq_3)

section \<open>Properties of the numbers\<close>

lemma bit_length_le: "n < 2 ^ k \<Longrightarrow> bit_length n \<le> k"
proof (induction k arbitrary: n)
  case 0
  then show ?case by (simp add: bit_length.simps)
next
  case (Suc k)
  show ?case
  proof (cases "n = 0")
    case True
    then show ?thesis by (simp add: bit_length.simps)
  next
    case False
    from Suc.prems have "n div 2 < 2 ^ k" by simp
    from Suc.IH[OF this] False show ?thesis by (subst bit_length.simps) simp
  qed
qed

lemma bit_length_pos: "0 < n \<Longrightarrow> 0 < bit_length n"
  by (subst bit_length.simps) simp

lemma round_half_even_of_int [simp]: "round_half_even (of_int k) = k"
  by (simp add: round_half_even_def)

text \<open>Whole numbers below \<open>2\<^sup>5\<^sup>3\<close> in magnitude are doubles: rounding leaves them as they are.\<close>

lemma to_double_of_int:
  assumes "\<bar>n\<bar> < 2 ^ 53"
  shows "to_double (of_int n) = Finite (of_int n)"
proof (cases "n = 0")
  case True
  then show ?thesis by (simp add: to_double_def)
next
  case False
  define m where "m = \<bar>n\<bar>"
  have m0: "1 \<le> m" and m53: "m < 2 ^ 53" using False assms by (simp_all add: m_def)
  have a: "\<bar>rat_of_int n\<bar> = of_int m" by (simp add: m_def)
  have sg: "(if 0 < rat_of_int n then rat_of_int m else - rat_of_int m) = of_int n"
    by (simp add: m_def)
  let ?b = "bit_length (nat m)"
  have a1: "(1::rat) \<le> of_int m" using m0 by (simp only: of_int_1_le_iff)
  have e: "binade (of_int m) = int ?b - 1"
    using a1 by (simp only: binade_def floor_of_int if_True)
  have "nat m < 2 ^ 53" using m53 m0 by (simp add: nat_less_iff)
  then have b53: "?b \<le> 53" by (rule bit_length_le)
  have b0: "0 < ?b" using m0 by (intro bit_length_pos) simp
  define k where "k = 53 - ?b"
  have ek: "max (binade (of_int m)) (- 1022) - 52 = - int k" using b53 b0 unfolding e k_def by simp
  have ulp: "(2::rat) powi (max (binade (of_int m)) (- 1022) - 52) = 1 / 2 ^ k"
    unfolding ek by (simp add: power_int_minus divide_inverse)
  have q: "rat_of_int m / (1 / 2 ^ k) = of_int (m * 2 ^ k)" by simp
  have y: "of_int (round_half_even (rat_of_int m / (1 / 2 ^ k))) * (1 / 2 ^ k) = rat_of_int m"
    unfolding q round_half_even_of_int by simp
  have small: "\<not> (2::rat) ^ 1024 \<le> of_int m"
  proof -
    have "rat_of_int m < 2 ^ 53" using m53 by (simp only: of_int_less_numeral_power_cancel_iff)
    also have "(2::rat) ^ 53 \<le> 2 ^ 1024" by (rule power_increasing) simp_all
    finally show ?thesis by (simp only: not_le)
  qed
  have nz: "rat_of_int n \<noteq> 0" using False by simp
  show ?thesis
    unfolding to_double_def Let_def a ulp y sg using nz small by (simp only: if_False)
qed

lemma to_double_numeral [simp]:
  "numeral k < (2 ^ 53 :: int) \<Longrightarrow> to_double (numeral k) = Finite (numeral k)"
  using to_double_of_int[of "numeral k"] by simp

lemma to_double_neg_numeral [simp]:
  "numeral k < (2 ^ 53 :: int) \<Longrightarrow> to_double (- numeral k) = Finite (- numeral k)"
  using to_double_of_int[of "- numeral k"] by simp

lemma to_double_0 [simp]: "to_double 0 = Finite 0"
  by (simp add: to_double_def)

lemma to_double_1 [simp]: "to_double 1 = Finite 1"
  using to_double_of_int[of 1] by simp

lemma js_minus_of_int:
  "\<bar>now - t\<bar> < 2 ^ 53 \<Longrightarrow> js_minus now (Finite (of_int t)) = Finite (of_int (now - t))"
  using to_double_of_int[of "now - t"] by simp

text \<open>
  Off the whole numbers the difference is rounded.  A time stamp \<open>2\<^sup>-\<^sup>7\<^sup>0\<close> before the epoch,
  read when the clock shows 30000, has the age 30000 exactly, which does not exceed a
  \<open>lockTimeout\<close> of 30000.
\<close>

lemma powi_38: "(2::rat) powi (- 38) = 1 / 2 ^ 38"
  by (simp only: power_int_minus_divide power_int_numeral)

lemma bit_length_30000: "bit_length 30000 = 15"
  by (simp add: bit_length.simps)

lemma floor_plus_small:
  fixes r :: rat
  assumes "0 \<le> r" "r < 1"
  shows "\<lfloor>of_int k + r\<rfloor> = k"
  using assms by (simp add: floor_unique)

lemma to_double_rounds_down: "to_double (30000 + 1 / 2 ^ 70) = Finite 30000"
proof -
  have s70: "0 \<le> (1::rat) / 2 ^ 70" "(1::rat) / 2 ^ 70 < 1" by simp_all
  have s32: "0 \<le> (1::rat) / 2 ^ 32" "(1::rat) / 2 ^ 32 < 1" by simp_all
  have fl: "\<lfloor>(30000::rat) + 1 / 2 ^ 70\<rfloor> = 30000"
    using floor_plus_small[OF s70, of 30000] by simp
  have pos: "(0::rat) < 30000 + 1 / 2 ^ 70" by simp
  have nz: "(30000::rat) + 1 / 2 ^ 70 \<noteq> 0" using pos by simp
  have ab: "\<bar>(30000::rat) + 1 / 2 ^ 70\<bar> = 30000 + 1 / 2 ^ 70" using pos by simp
  have one: "(1::rat) \<le> 30000 + 1 / 2 ^ 70" by simp
  have e: "binade (30000 + 1 / 2 ^ 70) = 14"
    unfolding binade_def using one by (simp only: if_True fl) (simp add: bit_length_30000)
  have m: "max 14 (- 1022) - 52 = (- 38 :: int)" by simp
  have q: "((30000::rat) + 1 / 2 ^ 70) / (1 / 2 ^ 38) = of_int (30000 * 2 ^ 38) + 1 / 2 ^ 32"
    by simp
  have flq: "\<lfloor>rat_of_int (30000 * 2 ^ 38) + 1 / 2 ^ 32\<rfloor> = 30000 * 2 ^ 38"
    using floor_plus_small[OF s32] .
  have r: "round_half_even (rat_of_int (30000 * 2 ^ 38) + 1 / 2 ^ 32) = 30000 * 2 ^ 38"
    unfolding round_half_even_def flq by simp
  have y: "rat_of_int (30000 * 2 ^ 38) * (1 / 2 ^ 38) = 30000" by simp
  show ?thesis
    unfolding to_double_def Let_def ab e m powi_38 q r y using nz pos by simp
qed

lemma age_at_the_rounding_edge:
  "js_minus 30000 (Finite (- (1 / 2 ^ 70))) = Finite 30000 \<and>
   \<not> js_gt (js_minus 30000 (Finite (- (1 / 2 ^ 70)))) 30000"
  using to_double_rounds_down by simp

section \<open>Properties of the calls\<close>

lemma begin_call_calls: "calls (snd (begin_call c w)) = calls w @ [c]"
  by (simp add: begin_call_def interfere_def split: list.splits prod.splits)

lemma begin_call_quiet:
  "quiet w \<Longrightarrow> begin_call c w = (None, w\<lparr>calls := calls w @ [c]\<rparr>)"
  by (simp add: begin_call_def interfere_def quiet_def)

lemma existsSync_calls: "calls (snd (existsSync p w)) = calls w @ [ExistsSync p]"
  using begin_call_calls[of "ExistsSync p" w]
  by (auto simp: existsSync_def split: prod.splits option.splits)

lemma unlinkSync_calls: "calls (snd (unlinkSync p w)) = calls w @ [UnlinkSync p]"
  using begin_call_calls[of "UnlinkSync p" w]
  by (auto simp: unlinkSync_def split: prod.splits option.splits node.splits)

lemma readFileSync_calls: "calls (snd (readFileSync p w)) = calls w @ [ReadFileSync p]"
  using begin_call_calls[of "ReadFileSync p" w]
  by (auto simp: readFileSync_def split: prod.splits option.splits node.splits)

lemma writeFileSync_wx_calls:
  "calls (snd (writeFileSync_wx p d w)) = calls w @ [WriteFileSync p d]"
  using begin_call_calls[of "WriteFileSync p d" w]
  by (auto simp: writeFileSync_wx_def split: prod.splits option.splits node.splits)

lemma statSync_calls: "calls (snd (statSync p w)) = calls w @ [StatSync p]"
  using begin_call_calls[of "StatSync p" w]
  by (auto simp: statSync_def split: prod.splits option.splits node.splits)

lemma sleep_calls: "calls (sleep d w) = calls w @ [SetTimeout d]"
  using begin_call_calls[of "SetTimeout d" w]
  by (auto simp: sleep_def split: prod.splits)

text \<open>The clock never runs backwards, and a sleep takes at least the time asked for.\<close>

lemma begin_call_clock: "clock w \<le> clock (snd (begin_call c w))"
  by (simp add: begin_call_def interfere_def split: list.splits prod.splits)

lemma existsSync_clock: "clock w \<le> clock (snd (existsSync p w))"
  using begin_call_clock[of w "ExistsSync p"]
  by (auto simp: existsSync_def split: prod.splits option.splits)

lemma unlinkSync_clock: "clock w \<le> clock (snd (unlinkSync p w))"
  using begin_call_clock[of w "UnlinkSync p"]
  by (auto simp: unlinkSync_def split: prod.splits option.splits node.splits)

lemma readFileSync_clock: "clock w \<le> clock (snd (readFileSync p w))"
  using begin_call_clock[of w "ReadFileSync p"]
  by (auto simp: readFileSync_def split: prod.splits option.splits node.splits)

lemma writeFileSync_wx_clock: "clock w \<le> clock (snd (writeFileSync_wx p d w))"
  using begin_call_clock[of w "WriteFileSync p d"]
  by (auto simp: writeFileSync_wx_def split: prod.splits option.splits node.splits)

lemma sleep_clock: "clock w + \<lfloor>d\<rfloor> \<le> clock (sleep d w)"
  using begin_call_clock[of w "SetTimeout d"]
  by (auto simp: sleep_def split: prod.splits)

lemma unlinkSync_Error: "fst (unlinkSync p w) = Inl e \<Longrightarrow> \<exists>c m. e = Error c m"
  by (auto simp: unlinkSync_def fs_error_def split: prod.splits option.splits node.splits)

section \<open>Properties of unlock\<close>

lemma unlock_result: "fst (unlock self w) = Inr ()"
proof (cases "lockAcquired self")
  case False
  then show ?thesis by (simp add: unlock_def)
next
  case True
  obtain ex w1 where ex: "existsSync (lockPath self) w = (ex, w1)"
    by (cases "existsSync (lockPath self) w")
  show ?thesis
  proof (cases ex)
    case False
    with True ex show ?thesis by (simp add: unlock_def)
  next
    case ext: True
    obtain r w2 where r: "unlinkSync (lockPath self) w1 = (r, w2)"
      by (cases "unlinkSync (lockPath self) w1")
    show ?thesis
    proof (cases r)
      case (Inr u)
      with True ex ext r show ?thesis by (simp add: unlock_def)
    next
      case (Inl e)
      with r unlinkSync_Error[of "lockPath self" w1 e] obtain c m where "e = Error c m" by auto
      with True ex ext r Inl show ?thesis by (simp add: unlock_def)
    qed
  qed
qed

lemma unlock_flag: "\<not> lockAcquired (fst (snd (unlock self w)))"
  using unlock_result[of self w]
  by (auto simp: unlock_def split: if_splits prod.splits sum.splits)

lemma unlock_quiet_file:
  assumes "lockAcquired self" "quiet w" "fs w (lockPath self) = Some (File c)"
  shows "unlock self w = (Inr (), self\<lparr>lockAcquired := False\<rparr>,
           w\<lparr>fs := (fs w)(lockPath self := None),
             calls := calls w @ [ExistsSync (lockPath self), UnlinkSync (lockPath self)]\<rparr>)"
  using assms
  by (simp add: unlock_def existsSync_def unlinkSync_def begin_call_quiet quiet_def)

lemma unlock_quiet_absent:
  assumes "lockAcquired self" "quiet w" "fs w (lockPath self) = None"
  shows "unlock self w = (Inr (), self\<lparr>lockAcquired := False\<rparr>,
           w\<lparr>calls := calls w @ [ExistsSync (lockPath self)]\<rparr>)"
  using assms
  by (simp add: unlock_def existsSync_def unlinkSync_def begin_call_quiet quiet_def)

lemma unlock_new_calls:
  "new_calls w (snd (snd (unlock self w))) \<in>
     {[], [ExistsSync (lockPath self)], [ExistsSync (lockPath self), UnlinkSync (lockPath self)]}"
proof (cases "lockAcquired self")
  case False
  then show ?thesis by (simp add: unlock_def new_calls_def)
next
  case True
  obtain ex w1 where ex: "existsSync (lockPath self) w = (ex, w1)"
    by (cases "existsSync (lockPath self) w")
  then have c1: "calls w1 = calls w @ [ExistsSync (lockPath self)]"
    using existsSync_calls[of "lockPath self" w] by simp
  show ?thesis
  proof (cases ex)
    case False
    with True ex c1 show ?thesis by (simp add: unlock_def new_calls_def)
  next
    case ext: True
    obtain r w2 where r: "unlinkSync (lockPath self) w1 = (r, w2)"
      by (cases "unlinkSync (lockPath self) w1")
    then have c2: "calls w2 = calls w @ [ExistsSync (lockPath self), UnlinkSync (lockPath self)]"
      using unlinkSync_calls[of "lockPath self" w1] c1 by simp
    with True ex ext r show ?thesis
      by (simp add: unlock_def new_calls_def split: sum.splits)
  qed
qed

text \<open>
  C8.  \<open>unlock\<close> on a lock that is not held changes nothing and does not raise.  On a held
  lock it never raises and always clears the flag, whatever the other processes and the
  file system do meanwhile; when nothing interferes, a lock file that is present is deleted,
  and a lock file that another process has already removed is no error.
\<close>

theorem unlock_never_raises:
  "fst (unlock self w) = Inr () \<and>
   \<not> lockAcquired (fst (snd (unlock self w))) \<and>
   (\<not> lockAcquired self \<longrightarrow> unlock self w = (Inr (), self, w)) \<and>
   (lockAcquired self \<and> quiet w \<and> fs w (lockPath self) = Some (File c) \<longrightarrow>
      fs (snd (snd (unlock self w))) = (fs w)(lockPath self := None)) \<and>
   (lockAcquired self \<and> quiet w \<and> fs w (lockPath self) = None \<longrightarrow>
      fs (snd (snd (unlock self w))) = fs w)"
proof -
  have "\<not> lockAcquired self \<longrightarrow> unlock self w = (Inr (), self, w)"
    by (simp add: unlock_def)
  moreover have "lockAcquired self \<and> quiet w \<and> fs w (lockPath self) = Some (File c) \<longrightarrow>
      fs (snd (snd (unlock self w))) = (fs w)(lockPath self := None)"
    by (simp add: unlock_quiet_file)
  moreover have "lockAcquired self \<and> quiet w \<and> fs w (lockPath self) = None \<longrightarrow>
      fs (snd (snd (unlock self w))) = fs w"
    by (simp add: unlock_quiet_absent)
  ultimately show ?thesis using unlock_result[of self w] unlock_flag[of self w] by blast
qed

theorem unlock_never_raises_witness:
  "lockAcquired held_lock \<and>
   quiet (world_with [(demo_lock_path, File ''x'')] 0 []) \<and>
   fs (world_with [(demo_lock_path, File ''x'')] 0 []) (lockPath held_lock) = Some (File ''x'') \<and>
   fst (unlock held_lock (world_with [(demo_lock_path, File ''x'')] 0 [])) = Inr () \<and>
   fs (snd (snd (unlock held_lock (world_with [(demo_lock_path, File ''x'')] 0 [])))) demo_lock_path = None \<and>
   \<not> lockAcquired (fst (snd (unlock held_lock (world_with [(demo_lock_path, File ''x'')] 0 [])))) \<and>
   \<not> lockAcquired (FileLock_new demo_lock_path) \<and>
   unlock (FileLock_new demo_lock_path) (world_with [(demo_lock_path, File ''x'')] 0 [])
     = (Inr (), FileLock_new demo_lock_path, world_with [(demo_lock_path, File ''x'')] 0 []) \<and>
   fs (world_with [] 0 []) (lockPath held_lock) = None \<and>
   fs (snd (snd (unlock held_lock (world_with [] 0 [])))) = fs (world_with [] 0 []) \<and>
   fst (unlock held_lock (world_with [(demo_lock_path, File ''x'')] 0
          [nothing, \<lparr>elapsed = 5, changes = [(demo_lock_path, None)], fault = None\<rparr>])) = Inr ()"
  using unlock_never_raises[of held_lock "world_with [(demo_lock_path, File ''x'')] 0 []" "''x''"]
    unlock_never_raises[of "FileLock_new demo_lock_path" "world_with [(demo_lock_path, File ''x'')] 0 []"]
    unlock_never_raises[of held_lock "world_with [] 0 []"]
    unlock_never_raises[of held_lock "world_with [(demo_lock_path, File ''x'')] 0
          [nothing, \<lparr>elapsed = 5, changes = [(demo_lock_path, None)], fault = None\<rparr>]"]
  by (simp add: held_lock_def FileLock_new_def world_with_def quiet_def demo_lock_path_def)

text \<open>
  C10.  \<open>unlock\<close> on a held lock decides from the flag and from the file's existence alone.
  Whatever the lock file contains, also the data of another process that took the lock over,
  it is deleted; the outcome does not depend on the content, and \<open>unlock\<close> never reads a
  file, in any world.  (\<open>unlock\<close> has no access to the pid or the host name either: it does
  not take the runtime.)
\<close>

theorem unlock_deletes_without_reading:
  "(lockAcquired self \<and> quiet w \<longrightarrow>
      unlock self (w\<lparr>fs := (fs w)(lockPath self \<mapsto> File content)\<rparr>)
        = (Inr (), self\<lparr>lockAcquired := False\<rparr>,
           w\<lparr>fs := (fs w)(lockPath self := None),
             calls := calls w @ [ExistsSync (lockPath self), UnlinkSync (lockPath self)]\<rparr>)) \<and>
   ReadFileSync q \<notin> set (new_calls w (snd (snd (unlock self w))))"
proof -
  have "lockAcquired self \<and> quiet w \<longrightarrow>
      unlock self (w\<lparr>fs := (fs w)(lockPath self \<mapsto> File content)\<rparr>)
        = (Inr (), self\<lparr>lockAcquired := False\<rparr>,
           w\<lparr>fs := (fs w)(lockPath self := None),
             calls := calls w @ [ExistsSync (lockPath self), UnlinkSync (lockPath self)]\<rparr>)"
    using unlock_quiet_file[of self "w\<lparr>fs := (fs w)(lockPath self \<mapsto> File content)\<rparr>" content]
    by (simp add: quiet_def)
  moreover have "ReadFileSync q \<notin> set (new_calls w (snd (snd (unlock self w))))"
    using unlock_new_calls[of w self] by auto
  ultimately show ?thesis by blast
qed

theorem unlock_deletes_without_reading_witness:
  "lockAcquired held_lock \<and> quiet (world_with [] 70000 []) \<and>
   unlock held_lock (world_with [(demo_lock_path, File ''written by pid 4242 on another host'')] 70000 [])
     = (Inr (), FileLock_new demo_lock_path,
        \<lparr>fs = (\<lambda>p. None), clock = 70000, env = [],
          calls = [ExistsSync demo_lock_path, UnlinkSync demo_lock_path]\<rparr>)"
  using unlock_deletes_without_reading[of held_lock "world_with [] 70000 []"
           "''written by pid 4242 on another host''"]
  by (simp add: held_lock_def FileLock_new_def world_with_def quiet_def demo_lock_path_def fun_upd_def)

section \<open>Properties of lock\<close>

subsection \<open>Attempts and backoff\<close>

declare lock_loop.simps [simp del]

lemma readFileSync_Error: "fst (readFileSync p w) = Inl e \<Longrightarrow> \<exists>c m. e = Error c m"
  by (auto simp: readFileSync_def fs_error_def split: prod.splits option.splits node.splits)

lemma writeFileSync_wx_Error: "fst (writeFileSync_wx p d w) = Inl e \<Longrightarrow> \<exists>c m. e = Error c m"
  by (auto simp: writeFileSync_wx_def fs_error_def split: prod.splits option.splits node.splits)

lemma check_stale_Error: "fst (check_stale rt self w) = Inl e \<Longrightarrow> \<exists>c m. e = Error c m"
  using readFileSync_Error[of "lockPath self" w e]
  by (auto simp: check_stale_def split: prod.splits sum.splits if_splits)

lemma before_create_Error: "fst (before_create rt self w) = Inl e \<Longrightarrow> \<exists>c m. e = Error c m"
  using check_stale_Error[of rt self "snd (existsSync (lockPath self) w)" e]
  by (auto simp: before_create_def split: prod.splits bool.splits)

lemma lock_attempt_Error: "fst (lock_attempt rt self w) = Inl e \<Longrightarrow> \<exists>c m. e = Error c m"
proof -
  assume a: "fst (lock_attempt rt self w) = Inl e"
  obtain r w2 where b: "before_create rt self w = (r, w2)" by (cases "before_create rt self w")
  show ?thesis
  proof (cases r)
    case (Inl e')
    with a b have "e' = e" by (simp add: lock_attempt_def)
    with b Inl before_create_Error[of rt self w e] show ?thesis by simp
  next
    case (Inr u)
    with a b writeFileSync_wx_Error[of "lockPath self" _ w2 e] show ?thesis
      by (simp add: lock_attempt_def)
  qed
qed

lemma lock_loop_exhausted:
  "\<not> attempts < maxRetries self \<Longrightarrow>
     lock_loop rt self attempts d w = (Inl (timeout_error self), self, w)"
  by (subst lock_loop.simps) (simp add: timeout_error_def)

lemma lock_loop_acquired:
  "attempts < maxRetries self \<Longrightarrow> lock_attempt rt self w = (Inr u, w1) \<Longrightarrow>
     lock_loop rt self attempts d w = (Inr (), self\<lparr>lockAcquired := True\<rparr>, w1)"
  by (subst lock_loop.simps) simp

lemma lock_loop_retry:
  "attempts < maxRetries self \<Longrightarrow> lock_attempt rt self w = (Inl (Error (Some ''EEXIST'') m), w1) \<Longrightarrow>
     lock_loop rt self attempts d w =
       lock_loop rt self (attempts + 1) (min (d * (3 / 2)) (maxRetryDelay self)) (sleep d w1)"
  by (subst lock_loop.simps) simp

lemma lock_loop_fatal:
  "attempts < maxRetries self \<Longrightarrow> lock_attempt rt self w = (Inl (Error c m), w1) \<Longrightarrow>
   c \<noteq> Some ''EEXIST'' \<Longrightarrow>
     lock_loop rt self attempts d w = (Inl (fatal_error self m), self, w1)"
  by (subst lock_loop.simps) (simp add: fatal_error_def)

lemma delays_append: "delays (xs @ ys) = delays xs @ delays ys"
  by (induction xs rule: delays.induct) simp_all

lemma attempts_made_append: "attempts_made (xs @ ys) = attempts_made xs + attempts_made ys"
  by (induction xs rule: attempts_made.induct) simp_all

lemma check_stale_calls:
  "\<exists>cs. calls (snd (check_stale rt self w)) = calls w @ cs \<and> delays cs = [] \<and> attempts_made cs = 0"
proof -
  obtain r w1 where r: "readFileSync (lockPath self) w = (r, w1)"
    by (cases "readFileSync (lockPath self) w")
  then have c1: "calls w1 = calls w @ [ReadFileSync (lockPath self)]"
    using readFileSync_calls[of "lockPath self" w] by simp
  have c2: "calls (snd (unlinkSync (lockPath self) w1))
              = calls w @ [ReadFileSync (lockPath self), UnlinkSync (lockPath self)]"
    using unlinkSync_calls[of "lockPath self" w1] c1 by simp
  show ?thesis using r c1 c2
    by (auto simp: check_stale_def split: sum.splits)
qed

lemma before_create_calls:
  "\<exists>cs. calls (snd (before_create rt self w)) = calls w @ cs \<and> delays cs = [] \<and> attempts_made cs = 1"
proof -
  obtain ex w1 where ex: "existsSync (lockPath self) w = (ex, w1)"
    by (cases "existsSync (lockPath self) w")
  then have c1: "calls w1 = calls w @ [ExistsSync (lockPath self)]"
    using existsSync_calls[of "lockPath self" w] by simp
  obtain cs where cs: "calls (snd (check_stale rt self w1)) = calls w1 @ cs" "delays cs = []" "attempts_made cs = 0"
    using check_stale_calls[of rt self w1] by blast
  show ?thesis
  proof (cases ex)
    case True
    with ex c1 cs show ?thesis
      by (intro exI[of _ "ExistsSync (lockPath self) # cs"]) (simp add: before_create_def)
  next
    case False
    with ex c1 show ?thesis
      by (intro exI[of _ "[ExistsSync (lockPath self)]"]) (simp add: before_create_def)
  qed
qed

lemma lock_attempt_calls:
  "\<exists>cs. calls (snd (lock_attempt rt self w)) = calls w @ cs \<and> delays cs = [] \<and> attempts_made cs = 1"
proof -
  obtain r w2 where b: "before_create rt self w = (r, w2)" by (cases "before_create rt self w")
  obtain cs where cs: "calls w2 = calls w @ cs" "delays cs = []" "attempts_made cs = 1"
    using before_create_calls[of rt self w] b by auto
  show ?thesis
  proof (cases r)
    case (Inl e)
    with b cs show ?thesis by (simp add: lock_attempt_def)
  next
    case (Inr u)
    let ?d = "JSON_stringify rt (lockData rt (clock w))"
    have "calls (snd (writeFileSync_wx (lockPath self) ?d w2)) = calls w @ (cs @ [WriteFileSync (lockPath self) ?d])"
      using writeFileSync_wx_calls[of "lockPath self" ?d w2] cs by simp
    with b Inr cs show ?thesis
      by (intro exI[of _ "cs @ [WriteFileSync (lockPath self) ?d]"])
         (simp add: lock_attempt_def delays_append attempts_made_append)
  qed
qed

lemma backoff_shift:
  "backoff (min (d * (3 / 2)) cap) cap k = backoff d cap (Suc k)"
  by (induction k) simp_all

lemma map_backoff_shift:
  "d # map (backoff (min (d * (3 / 2)) cap) cap) [0..<k] = map (backoff d cap) [0..<Suc k]"
proof -
  have "map (backoff d cap) [0..<Suc k] = backoff d cap 0 # map (backoff d cap \<circ> Suc) [0..<k]"
    by (simp only: upt_conv_Cons[of 0 "Suc k"] map_Suc_upt[symmetric] list.map map_map)
  then show ?thesis
    using backoff_shift[of d cap] by (simp add: comp_def del: backoff.simps(2) upt_Suc)
qed

lemma lock_loop_trace:
  "\<exists>cs k. calls (snd (snd (lock_loop rt self a d w))) = calls w @ cs \<and>
      k \<le> maxRetries self - a \<and>
      delays cs = map (backoff d (maxRetryDelay self)) [0..<k] \<and>
      attempts_made cs \<le> maxRetries self - a \<and>
      k \<le> attempts_made cs \<and>
      (k = maxRetries self - a \<longrightarrow> fst (lock_loop rt self a d w) = Inl (timeout_error self))"
proof (induction "maxRetries self - a" arbitrary: a d w)
  case 0
  then have "\<not> a < maxRetries self" by simp
  then show ?case
    by (intro exI[of _ "[]"] exI[of _ 0]) (simp add: lock_loop_exhausted)
next
  case (Suc n)
  then have lt: "a < maxRetries self" by simp
  obtain r w1 where att: "lock_attempt rt self w = (r, w1)" by (cases "lock_attempt rt self w")
  obtain cs1 where cs1: "calls w1 = calls w @ cs1" "delays cs1 = []" "attempts_made cs1 = 1"
    using lock_attempt_calls[of rt self w] att by auto
  show ?case
  proof (cases r)
    case (Inr u)
    with lt att cs1 show ?thesis
      by (intro exI[of _ cs1] exI[of _ 0]) (simp add: lock_loop_acquired)
  next
    case (Inl e)
    then obtain c m where e: "e = Error c m" using lock_attempt_Error[of rt self w e] att by auto
    show ?thesis
    proof (cases "c = Some ''EEXIST''")
      case False
      with lt att Inl e cs1 show ?thesis
        by (intro exI[of _ cs1] exI[of _ 0]) (simp add: lock_loop_fatal)
    next
      case True
      let ?d' = "min (d * (3 / 2)) (maxRetryDelay self)"
      let ?w' = "sleep d w1"
      have step: "lock_loop rt self a d w = lock_loop rt self (a + 1) ?d' ?w'"
        using lt att Inl e True by (simp add: lock_loop_retry)
      have n: "n = maxRetries self - (a + 1)" using Suc.hyps(2) by simp
      from Suc.hyps(1)[OF n, of ?d' ?w'] obtain cs k where
        ih: "calls (snd (snd (lock_loop rt self (a + 1) ?d' ?w'))) = calls ?w' @ cs"
            "k \<le> maxRetries self - (a + 1)"
            "delays cs = map (backoff ?d' (maxRetryDelay self)) [0..<k]"
            "attempts_made cs \<le> maxRetries self - (a + 1)"
            "k \<le> attempts_made cs"
            "k = maxRetries self - (a + 1) \<longrightarrow>
               fst (lock_loop rt self (a + 1) ?d' ?w') = Inl (timeout_error self)"
        by blast
      have cw: "calls ?w' = calls w @ cs1 @ [SetTimeout d]"
        using sleep_calls[of d w1] cs1 by simp
      show ?thesis
        apply (rule exI[of _ "cs1 @ [SetTimeout d] @ cs"])
        apply (rule exI[of _ "Suc k"])
        using ih cw cs1 lt step map_backoff_shift[of d "maxRetryDelay self" k]
        apply (simp add: delays_append attempts_made_append del: backoff.simps(2) upt_Suc)
        apply auto
        done
    qed
  qed
qed

lemma lock_attempt_young_quiet:
  assumes "quiet w" "fs w (lockPath self) = Some (File c)"
    and "lockAge rt c (clock w) = Inr age" "\<not> js_gt age (lockTimeout self)"
  shows "lock_attempt rt self w =
           (Inl (fs_error ''EEXIST'' ''file already exists'' ''open'' (lockPath self)),
            w\<lparr>calls := calls w @ [ExistsSync (lockPath self), ReadFileSync (lockPath self),
                 WriteFileSync (lockPath self) (JSON_stringify rt (lockData rt (clock w)))]\<rparr>)"
  using assms
  by (simp add: lock_attempt_def before_create_def check_stale_def existsSync_def readFileSync_def
        writeFileSync_wx_def begin_call_quiet quiet_def)

lemma sleep_quiet:
  "quiet w \<Longrightarrow> sleep d w = w\<lparr>calls := calls w @ [SetTimeout d], clock := clock w + \<lfloor>d\<rfloor>\<rparr>"
  by (simp add: sleep_def begin_call_quiet)

lemma lockAge_numeric:
  "JSON_parse rt c = Some j \<Longrightarrow> get_timestamp j = Inr ts \<Longrightarrow>
   ToNumber rt ts = Inr (Finite (of_int t)) \<Longrightarrow> \<bar>now - t\<bar> < 2 ^ 53 \<Longrightarrow>
     lockAge rt c now = Inr (Finite (of_int (now - t)))"
  by (simp add: lockAge_def js_minus_of_int del: js_minus.simps)

lemma lock_loop_young_lock_stays:
  assumes "JSON_parse rt c = Some j" "get_timestamp j = Inr ts"
    and "ToNumber rt ts = Inr (Finite (of_int t))"
    and "maxRetryDelay self \<le> D" "0 \<le> D" "0 \<le> maxRetryDelay self" "lockTimeout self < 2 ^ 53"
  shows "quiet w \<Longrightarrow> fs w (lockPath self) = Some (File c) \<Longrightarrow> d \<le> D \<Longrightarrow> 0 \<le> d \<Longrightarrow>
     t - 2 ^ 53 < clock w \<Longrightarrow>
     of_int (clock w) + of_nat (maxRetries self - a) * D \<le> of_int t + of_int (lockTimeout self) \<Longrightarrow>
     fst (lock_loop rt self a d w) = Inl (timeout_error self) \<and>
     length (delays (new_calls w (snd (snd (lock_loop rt self a d w))))) = maxRetries self - a \<and>
     fs (snd (snd (lock_loop rt self a d w))) = fs w"
proof (induction "maxRetries self - a" arbitrary: a d w)
  case 0
  then have "\<not> a < maxRetries self" by simp
  then show ?case using 0 by (simp add: lock_loop_exhausted new_calls_def)
next
  case (Suc n)
  then have lt: "a < maxRetries self" by simp
  have n: "n = maxRetries self - (a + 1)" using Suc.hyps(2) by simp
  have nn: "of_nat (maxRetries self - a) = (of_nat n :: rat) + 1" using Suc.hyps(2) by simp
  have bound: "of_int (clock w) + (of_nat n + 1) * D \<le> rat_of_int t + of_int (lockTimeout self)"
    using Suc.prems(6) nn by simp
  have nD: "0 \<le> D * of_nat n" using assms(5) by simp
  have le: "clock w - t \<le> lockTimeout self"
  proof -
    have "of_int (clock w) + D * of_nat n + D \<le> rat_of_int t + of_int (lockTimeout self)"
      using bound by (simp add: algebra_simps)
    then have "rat_of_int (clock w) - of_int t \<le> of_int (lockTimeout self)"
      using nD assms(5) by linarith
    then have "rat_of_int (clock w - t) \<le> of_int (lockTimeout self)" by simp
    then show ?thesis by (simp only: of_int_le_iff)
  qed
  have small: "\<bar>clock w - t\<bar> < 2 ^ 53" using le assms(7) Suc.prems(5) by linarith
  have young: "\<not> js_gt (Finite (of_int (clock w - t))) (lockTimeout self)"
    using le by (simp del: of_int_diff)
  let ?w1 = "w\<lparr>calls := calls w @ [ExistsSync (lockPath self), ReadFileSync (lockPath self),
                 WriteFileSync (lockPath self) (JSON_stringify rt (lockData rt (clock w)))]\<rparr>"
  have att: "lock_attempt rt self w =
      (Inl (Error (Some ''EEXIST'') (''EEXIST: file already exists, open '' @ [CHR 0x27] @ lockPath self @ [CHR 0x27])), ?w1)"
    using lock_attempt_young_quiet[OF Suc.prems(1,2) lockAge_numeric[OF assms(1,2,3) small] young]
    by (simp add: fs_error_def)
  let ?d' = "min (d * (3 / 2)) (maxRetryDelay self)"
  let ?w' = "sleep d ?w1"
  have step: "lock_loop rt self a d w = lock_loop rt self (a + 1) ?d' ?w'"
    using lock_loop_retry[OF lt att] by simp
  have q1: "quiet ?w1" using Suc.prems(1) by (simp add: quiet_def)
  have w': "?w' = ?w1\<lparr>calls := calls ?w1 @ [SetTimeout d], clock := clock ?w1 + \<lfloor>d\<rfloor>\<rparr>"
    using sleep_quiet[OF q1] by simp
  have q': "quiet ?w'" using q1 by (simp add: w' quiet_def)
  have f': "fs ?w' (lockPath self) = Some (File c)" using Suc.prems(2) by (simp add: w')
  have d': "?d' \<le> D" using assms(4) by simp
  have d0': "0 \<le> ?d'" using Suc.prems(4) assms(6) by simp
  have fl0: "0 \<le> \<lfloor>d\<rfloor>" using Suc.prems(4) by simp
  have "clock ?w' = clock w + \<lfloor>d\<rfloor>" by (simp add: w')
  with Suc.prems(5) fl0 have lower': "t - 2 ^ 53 < clock ?w'" by linarith
  have fl: "of_int \<lfloor>d\<rfloor> \<le> D" using Suc.prems(3) of_int_floor_le[of d] by linarith
  have b': "of_int (clock ?w') + of_nat (maxRetries self - (a + 1)) * D
      \<le> rat_of_int t + of_int (lockTimeout self)"
    using bound fl n by (simp add: w' algebra_simps)
  note ih = Suc.hyps(1)[OF n q' f' d' d0' lower' b']
  have cw: "calls ?w' = calls w @ ([ExistsSync (lockPath self), ReadFileSync (lockPath self),
                 WriteFileSync (lockPath self) (JSON_stringify rt (lockData rt (clock w)))] @ [SetTimeout d])"
    by (simp add: w')
  obtain cs k where tr: "calls (snd (snd (lock_loop rt self (a + 1) ?d' ?w'))) = calls ?w' @ cs"
    using lock_loop_trace[of rt self "a + 1" ?d' ?w'] by blast
  have nc: "new_calls ?w' (snd (snd (lock_loop rt self (a + 1) ?d' ?w'))) = cs"
    using tr by (simp add: new_calls_def)
  have nc2: "new_calls w (snd (snd (lock_loop rt self (a + 1) ?d' ?w')))
      = [ExistsSync (lockPath self), ReadFileSync (lockPath self),
                 WriteFileSync (lockPath self) (JSON_stringify rt (lockData rt (clock w))), SetTimeout d] @ cs"
    using tr cw by (simp add: new_calls_def)
  have fsw: "fs ?w' = fs w" by (simp add: w')
  show ?case
    using ih nc nc2 n Suc.hyps(2) fsw unfolding step
    by (simp add: delays_append)
qed

lemma check_stale_clock: "clock w \<le> clock (snd (check_stale rt self w))"
proof -
  obtain r w1 where r: "readFileSync (lockPath self) w = (r, w1)"
    by (cases "readFileSync (lockPath self) w")
  have c1: "clock w \<le> clock w1" using readFileSync_clock[of w "lockPath self"] r by simp
  have c2: "clock w1 \<le> clock (snd (unlinkSync (lockPath self) w1))" by (rule unlinkSync_clock)
  show ?thesis using r c1 c2 by (auto simp: check_stale_def split: sum.splits)
qed

lemma before_create_clock: "clock w \<le> clock (snd (before_create rt self w))"
proof -
  obtain ex w1 where ex: "existsSync (lockPath self) w = (ex, w1)"
    by (cases "existsSync (lockPath self) w")
  have c1: "clock w \<le> clock w1" using existsSync_clock[of w "lockPath self"] ex by simp
  have c2: "clock w1 \<le> clock (snd (check_stale rt self w1))" by (rule check_stale_clock)
  show ?thesis using ex c1 c2 by (cases ex) (simp_all add: before_create_def)
qed

lemma lock_attempt_clock: "clock w \<le> clock (snd (lock_attempt rt self w))"
proof -
  obtain r w2 where b: "before_create rt self w = (r, w2)" by (cases "before_create rt self w")
  have c1: "clock w \<le> clock w2" using before_create_clock[of w rt self] b by simp
  have c2: "clock w2 \<le> clock (snd (writeFileSync_wx (lockPath self)
      (JSON_stringify rt (lockData rt (clock w))) w2))"
    by (rule writeFileSync_wx_clock)
  show ?thesis using b c1 c2 by (cases r) (simp_all add: lock_attempt_def Let_def)
qed

lemma time_slept_append: "time_slept (xs @ ys) = time_slept xs + time_slept ys"
  by (simp add: time_slept_def delays_append)

text \<open>A \<open>lock\<close> call lasts at least as long as the delays it has slept.\<close>

lemma lock_loop_waits:
  "clock w + time_slept (new_calls w (snd (snd (lock_loop rt self a d w))))
     \<le> clock (snd (snd (lock_loop rt self a d w)))"
proof (induction "maxRetries self - a" arbitrary: a d w)
  case 0
  then have "\<not> a < maxRetries self" by simp
  then show ?case by (simp add: lock_loop_exhausted new_calls_def time_slept_def)
next
  case (Suc n)
  then have lt: "a < maxRetries self" by simp
  obtain r w1 where att: "lock_attempt rt self w = (r, w1)" by (cases "lock_attempt rt self w")
  obtain cs1 where cs1: "calls w1 = calls w @ cs1" "delays cs1 = []" "attempts_made cs1 = 1"
    using lock_attempt_calls[of rt self w] att by auto
  have ts1: "time_slept cs1 = 0" using cs1(2) by (simp add: time_slept_def)
  have c1: "clock w \<le> clock w1" using lock_attempt_clock[of w rt self] att by simp
  show ?case
  proof (cases r)
    case (Inr v)
    with lt att have "lock_loop rt self a d w = (Inr (), self\<lparr>lockAcquired := True\<rparr>, w1)"
      by (simp add: lock_loop_acquired)
    then show ?thesis using cs1(1) ts1 c1 by (simp add: new_calls_def)
  next
    case (Inl e)
    then obtain c m where e: "e = Error c m" using lock_attempt_Error[of rt self w e] att by auto
    show ?thesis
    proof (cases "c = Some ''EEXIST''")
      case False
      have "lock_loop rt self a d w = (Inl (fatal_error self m), self, w1)"
        using lt att Inl e False by (simp add: lock_loop_fatal)
      then show ?thesis using cs1(1) ts1 c1 by (simp add: new_calls_def)
    next
      case True
      let ?d' = "min (d * (3 / 2)) (maxRetryDelay self)"
      let ?w' = "sleep d w1"
      let ?res = "lock_loop rt self (a + 1) ?d' ?w'"
      have n: "n = maxRetries self - (a + 1)" using Suc.hyps(2) by simp
      have step: "lock_loop rt self a d w = ?res"
        using lt att Inl e True by (simp add: lock_loop_retry)
      have cw: "calls ?w' = calls w @ cs1 @ [SetTimeout d]"
        using sleep_calls[of d w1] cs1 by simp
      obtain cs k where tr: "calls (snd (snd ?res)) = calls ?w' @ cs"
        using lock_loop_trace[of rt self "a + 1" ?d' ?w'] by blast
      have nc: "new_calls ?w' (snd (snd ?res)) = cs" using tr by (simp add: new_calls_def)
      have nc2: "new_calls w (snd (snd ?res)) = cs1 @ [SetTimeout d] @ cs"
        using tr cw by (simp add: new_calls_def)
      have ts: "time_slept (cs1 @ [SetTimeout d] @ cs) = \<lfloor>d\<rfloor> + time_slept cs"
        using ts1 by (simp add: time_slept_append) (simp add: time_slept_def)
      have sl: "clock w1 + \<lfloor>d\<rfloor> \<le> clock ?w'" by (rule sleep_clock)
      from Suc.hyps(1)[OF n, of ?w' ?d'] have "clock ?w' + time_slept cs \<le> clock (snd (snd ?res))"
        unfolding nc .
      with sl c1 show ?thesis unfolding step nc2 ts by linarith
    qed
  qed
qed

lemma backoff_closed_form:
  assumes "0 \<le> cap"
  shows "backoff initial cap k = (if k = 0 then initial else min (initial * (3 / 2) ^ k) cap)"
proof (induction k)
  case 0
  then show ?case by simp
next
  case (Suc k)
  show ?case
  proof (cases "k = 0")
    case True
    then show ?thesis by simp
  next
    case False
    with Suc have "backoff initial cap k = min (initial * (3 / 2) ^ k) cap" by simp
    then show ?thesis using assms by (simp add: min_def) 
  qed
qed

lemma backoff_default: "backoff 100 2000 k = min (100 * (3 / 2) ^ k) 2000"
  using backoff_closed_form[of 2000 100 k] by (cases "k = 0") simp_all

text \<open>
  C4.  A \<open>lock\<close> call on a lock with the constructor's constants makes at most 100
  attempts, whatever the file system and the other processes do.  A failure of an attempt
  with the code \<^verbatim>\<open>EEXIST\<close> moves the loop to the next attempt count, after a sleep of
  the current delay, with the delay multiplied by 1.5 and capped at 2000: the delays slept
  are \<open>100 \<sqdot> 1.5\<^sup>k\<close> capped at 2000, for \<open>k = 0, 1, \<dots>\<close>.  The caller waits: the next
  attempt starts in the world the sleep leaves, in which the clock has advanced by the whole
  milliseconds of the delay at least, and the call as a whole lasts at least as long as all
  the delays it has slept.  When 100 attempts have failed so, \<open>lock\<close> raises an error whose
  message ends with the lock path.
\<close>

theorem lock_attempts_and_backoff:
  assumes "lock rt ((FileLock_new p)\<lparr>lockAcquired := held\<rparr>) w = (r, self', w')"
  shows "attempts_made (new_calls w w') \<le> 100 \<and>
     length (delays (new_calls w w')) \<le> attempts_made (new_calls w w') \<and>
     delays (new_calls w w') = map (backoff 100 2000) [0..<length (delays (new_calls w w'))] \<and>
     (\<forall>k. backoff 100 2000 k = min (100 * (3 / 2) ^ k) 2000) \<and>
     (\<forall>a d w0 m w1. a < 100 \<and>
         lock_attempt rt ((FileLock_new p)\<lparr>lockAcquired := held\<rparr>) w0
           = (Inl (Error (Some ''EEXIST'') m), w1) \<longrightarrow>
         lock_loop rt ((FileLock_new p)\<lparr>lockAcquired := held\<rparr>) a d w0
           = lock_loop rt ((FileLock_new p)\<lparr>lockAcquired := held\<rparr>) (a + 1)
               (min (d * (3 / 2)) 2000) (sleep d w1) \<and>
         clock w1 + \<lfloor>d\<rfloor> \<le> clock (sleep d w1) \<and>
         (quiet w1 \<longrightarrow> clock (sleep d w1) = clock w1 + \<lfloor>d\<rfloor> \<and> fs (sleep d w1) = fs w1)) \<and>
     clock w + time_slept (new_calls w w') \<le> clock w' \<and>
     (length (delays (new_calls w w')) = 100 \<longrightarrow>
        r = Inl (Error None (''Failed to acquire file lock after 100 attempts: '' @ p)))"
proof -
  let ?self = "(FileLock_new p)\<lparr>lockAcquired := held\<rparr>"
  have flds: "maxRetries ?self = 100" "retryDelay ?self = 100" "maxRetryDelay ?self = 2000"
    "lockPath ?self = p"
    by (simp_all add: FileLock_new_def)
  obtain cs k where tr: "calls w' = calls w @ cs" "k \<le> 100"
      "delays cs = map (backoff 100 2000) [0..<k]" "attempts_made cs \<le> 100" "k \<le> attempts_made cs"
      "k = 100 \<longrightarrow> r = Inl (timeout_error ?self)"
    using lock_loop_trace[of rt ?self 0 100 w] assms unfolding lock_def flds by auto
  have nc: "new_calls w w' = cs" using tr(1) by (simp add: new_calls_def)
  have len: "length (delays cs) = k" using tr(3) by simp
  have te: "timeout_error ?self = Error None (''Failed to acquire file lock after 100 attempts: '' @ p)"
    by (simp add: timeout_error_def FileLock_new_def digit_char_def)
  have step: "\<forall>a d w0 m w1. a < 100 \<and> lock_attempt rt ?self w0 = (Inl (Error (Some ''EEXIST'') m), w1) \<longrightarrow>
         lock_loop rt ?self a d w0 = lock_loop rt ?self (a + 1) (min (d * (3 / 2)) 2000) (sleep d w1) \<and>
         clock w1 + \<lfloor>d\<rfloor> \<le> clock (sleep d w1) \<and>
         (quiet w1 \<longrightarrow> clock (sleep d w1) = clock w1 + \<lfloor>d\<rfloor> \<and> fs (sleep d w1) = fs w1)"
    using lock_loop_retry[of _ ?self rt] sleep_clock sleep_quiet unfolding flds by auto
  have waits: "clock w + time_slept cs \<le> clock w'"
    using lock_loop_waits[of w rt ?self 0 100] assms unfolding lock_def flds nc[symmetric] by simp
  show ?thesis
    unfolding nc len using tr(2-6) te step backoff_default waits by simp
qed

lemma other_runtime_parse:
  "JSON_parse (other_runtime t) (render_lock (other_lock t)) = Some (other_lock t)"
  by (simp add: other_runtime_def demo_runtime_def)

lemma other_lock_timestamp:
  "get_timestamp (other_lock t) = Inr (Some (JNumber (Finite (of_int t))))"
  by (simp add: other_lock_def)

lemma floor_numeral_quotient:
  "\<lfloor>(numeral a :: rat) / numeral b\<rfloor> = numeral a div numeral b"
  using floor_divide_of_int_eq[of "numeral a" "numeral b", where ?'a = rat] by simp

lemma backoff_default_capped: "8 \<le> k \<Longrightarrow> backoff 100 2000 k = 2000"
proof (induction k rule: dec_induct)
  case base
  show ?case by (simp add: numeral_eq_Suc)
next
  case (step n)
  then show ?case by simp
qed

lemma sum_list_constant:
  "(\<And>x. x \<in> set xs \<Longrightarrow> f x = (c::int)) \<Longrightarrow> sum_list (map f xs) = int (length xs) * c"
  by (induction xs) (simp_all add: algebra_simps)

lemma time_slept_default:
  assumes "delays cs = map (backoff 100 2000) [0..<100]"
  shows "time_slept cs = 188924"
proof -
  have split: "[0..<100] = [0..<8] @ [8..<100]"
    using upt_add_eq_append[of 0 8 92] by simp
  have first: "sum_list (map (\<lambda>k. \<lfloor>backoff 100 2000 k\<rfloor>) [0..<8]) = 4924"
    by (simp add: upt_rec numeral_eq_Suc floor_numeral_quotient)
  have rest: "sum_list (map (\<lambda>k. \<lfloor>backoff 100 2000 k\<rfloor>) [8..<100]) = int (length [8..<100]) * 2000"
  proof (rule sum_list_constant)
    fix k assume "k \<in> set [8..<100]"
    then have "8 \<le> k" by (simp only: set_upt atLeastLessThan_iff)
    then show "\<lfloor>backoff 100 2000 k\<rfloor> = 2000" by (simp add: backoff_default_capped)
  qed
  have "time_slept cs = sum_list (map (\<lambda>k. \<lfloor>backoff 100 2000 k\<rfloor>) [0..<100])"
    unfolding time_slept_def assms by (simp only: map_map comp_def)
  also have "\<dots> = 4924 + int (length [8..<100]) * 2000"
    unfolding split map_append sum_list_append first rest ..
  also have "\<dots> = 188924" by simp
  finally show ?thesis .
qed

theorem lock_attempts_and_backoff_witness:
  "fst (lock (other_runtime 500000) (FileLock_new demo_lock_path) contended_world)
     = Inl (Error None ''Failed to acquire file lock after 100 attempts: /repo/.git/kodrdriv.lock'') \<and>
   length (delays (new_calls contended_world
      (snd (snd (lock (other_runtime 500000) (FileLock_new demo_lock_path) contended_world))))) = 100 \<and>
   attempts_made (new_calls contended_world
      (snd (snd (lock (other_runtime 500000) (FileLock_new demo_lock_path) contended_world)))) = 100 \<and>
   take 10 (delays (new_calls contended_world
      (snd (snd (lock (other_runtime 500000) (FileLock_new demo_lock_path) contended_world)))))
     = [100, 150, 225, 675 / 2, 2025 / 4, 6075 / 8, 18225 / 16, 54675 / 32, 2000, 2000] \<and>
   clock contended_world + 188924
     \<le> clock (snd (snd (lock (other_runtime 500000) (FileLock_new demo_lock_path) contended_world))) \<and>
   clock (sleep (675 / 2)
      (snd (lock_attempt (other_runtime 500000) (FileLock_new demo_lock_path)
              (locked_by_other 500000 475)))) = 812"
proof -
  let ?rt = "other_runtime 500000"
  let ?self = "FileLock_new demo_lock_path"
  let ?res = "lock ?rt ?self contended_world"
  let ?cs = "new_calls contended_world (snd (snd ?res))"
  have p: "JSON_parse ?rt (render_lock (other_lock 500000)) = Some (other_lock 500000)"
    by (simp add: other_runtime_def demo_runtime_def)
  have tn: "ToNumber ?rt (Some (JNumber (Finite (of_int 500000)))) = Inr (Finite (of_int 500000))"
    by simp
  have young: "length (delays ?cs) = 100"
    using lock_loop_young_lock_stays[OF p other_lock_timestamp tn, of ?self 2000 contended_world 100 0]
    by (simp add: lock_def FileLock_new_def contended_world_def world_with_def quiet_def)
  have self: "?self\<lparr>lockAcquired := False\<rparr> = ?self" by (simp add: FileLock_new_def)
  have eq: "lock ?rt (?self\<lparr>lockAcquired := False\<rparr>) contended_world = (fst ?res, fst (snd ?res), snd (snd ?res))"
    unfolding self by simp
  note inst = lock_attempts_and_backoff[OF eq]
  note i1 = inst[THEN conjunct1]
  note i2 = inst[THEN conjunct2, THEN conjunct1]
  note i3 = inst[THEN conjunct2, THEN conjunct2, THEN conjunct1]
  note i5 = inst[THEN conjunct2, THEN conjunct2, THEN conjunct2, THEN conjunct2, THEN conjunct1]
  note i6 = inst[THEN conjunct2, THEN conjunct2, THEN conjunct2, THEN conjunct2, THEN conjunct2,
      THEN conjunct1]
  note i7 = inst[THEN conjunct2, THEN conjunct2, THEN conjunct2, THEN conjunct2, THEN conjunct2,
      THEN conjunct2]
  have d: "delays ?cs = map (backoff 100 2000) [0..<100]"
    using i3 unfolding young .
  have "take 10 (map (backoff 100 2000) [0..<100]) = map (backoff 100 2000) [0..<10]"
    by (simp add: take_map)
  also have "\<dots> = [100, 150, 225, 675 / 2, 2025 / 4, 6075 / 8, 18225 / 16, 54675 / 32, 2000, 2000]"
    by (simp add: upt_rec numeral_eq_Suc)
  finally have t10: "take 10 (delays ?cs)
     = [100, 150, 225, 675 / 2, 2025 / 4, 6075 / 8, 18225 / 16, 54675 / 32, 2000, 2000]"
    using d by simp
  have att: "attempts_made ?cs = 100" using i1 i2 young by simp
  have r: "fst ?res
     = Inl (Error None ''Failed to acquire file lock after 100 attempts: /repo/.git/kodrdriv.lock'')"
    using i7 young by (simp add: demo_lock_path_def)
  have wait: "clock contended_world + 188924 \<le> clock (snd (snd ?res))"
    using i6 unfolding time_slept_default[OF d] .
  \<comment> \<open>the fourth sleep, after an attempt that started at time 475\<close>
  let ?w0 = "locked_by_other 500000 475"
  let ?w1 = "?w0\<lparr>calls := calls ?w0 @ [ExistsSync (lockPath ?self), ReadFileSync (lockPath ?self),
      WriteFileSync (lockPath ?self) (JSON_stringify ?rt (lockData ?rt (clock ?w0)))]\<rparr>"
  have q0: "quiet ?w0" by (simp add: locked_by_other_def world_with_def quiet_def)
  have f0: "fs ?w0 (lockPath ?self) = Some (File (render_lock (other_lock 500000)))"
    by (simp add: locked_by_other_def world_with_def FileLock_new_def)
  have c0: "clock ?w0 = 475" by (simp add: locked_by_other_def world_with_def)
  have small: "\<bar>clock ?w0 - 500000\<bar> < 2 ^ 53" unfolding c0 by simp
  have yg: "\<not> js_gt (Finite (of_int (clock ?w0 - 500000))) (lockTimeout ?self)"
    unfolding c0 by (simp add: FileLock_new_def)
  have fail: "lock_attempt ?rt ?self ?w0
      = (Inl (Error (Some ''EEXIST'') (''EEXIST: file already exists, open '' @ [CHR 0x27]
            @ lockPath ?self @ [CHR 0x27])), ?w1)"
    using lock_attempt_young_quiet[OF q0 f0 lockAge_numeric[OF p other_lock_timestamp tn small] yg]
    by (simp add: fs_error_def)
  have lt: "(3::nat) < 100" by simp
  have q1: "quiet ?w1" using q0 by (simp add: quiet_def)
  from i5[unfolded self, rule_format, OF conjI[OF lt fail], of "675 / 2"] q1
  have "clock (sleep (675 / 2) ?w1) = clock ?w1 + \<lfloor>675 / 2 :: rat\<rfloor>"
    by blast
  then have s: "clock (sleep (675 / 2) (snd (lock_attempt ?rt ?self ?w0))) = 812"
    unfolding fail snd_conv by (simp add: c0 floor_numeral_quotient)
  from r young att t10 wait s show ?thesis by (intro conjI)
qed

subsection \<open>Failures of the create-exclusive write\<close>

lemma readFileSync_Inr:
  "readFileSync p w = (Inr c, w') \<Longrightarrow> fs w' p = Some (File c)"
  by (auto simp: readFileSync_def begin_call_def interfere_def
           split: prod.splits option.splits node.splits list.splits)

lemma unlinkSync_quiet_file:
  "quiet w \<Longrightarrow> fs w p = Some (File c) \<Longrightarrow>
     unlinkSync p w = (Inr (), w\<lparr>calls := calls w @ [UnlinkSync p], fs := (fs w)(p := None)\<rparr>)"
  by (simp add: unlinkSync_def begin_call_quiet)

lemma writeFileSync_wx_quiet_present:
  "quiet w \<Longrightarrow> fs w p = Some n \<Longrightarrow>
     writeFileSync_wx p d w =
       (Inl (fs_error ''EEXIST'' ''file already exists'' ''open'' p),
        w\<lparr>calls := calls w @ [WriteFileSync p d]\<rparr>)"
  by (simp add: writeFileSync_wx_def begin_call_quiet)

lemma writeFileSync_wx_quiet_absent:
  "quiet w \<Longrightarrow> fs w p = None \<Longrightarrow>
     writeFileSync_wx p d w =
       (Inr (), w\<lparr>calls := calls w @ [WriteFileSync p d], fs := (fs w)(p \<mapsto> File d)\<rparr>)"
  by (simp add: writeFileSync_wx_def begin_call_quiet)

text \<open>
  C6.  When the create-exclusive write of an attempt fails with an error whose code is not
  \<^verbatim>\<open>EEXIST\<close>, \<open>lock\<close> raises at once, in whatever iteration of the loop this happens:
  the caller gets an error with the lock path and the failure's message, the failed write
  is the last call made, and there is no sleep and no further attempt.
\<close>

theorem create_failure_is_fatal:
  assumes "attempts < maxRetries self"
    and "before_create rt self w = (Inr (), w2)"
    and "writeFileSync_wx (lockPath self) (JSON_stringify rt (lockData rt (clock w))) w2
           = (Inl (Error code m), w3)"
    and "code \<noteq> Some ''EEXIST''"
  shows "lock_loop rt self attempts d w =
           (Inl (Error None (''Failed to acquire file lock '' @ lockPath self @ '': '' @ m)),
            self, w3) \<and>
         calls w3 = calls w2
            @ [WriteFileSync (lockPath self) (JSON_stringify rt (lockData rt (clock w)))] \<and>
         delays (new_calls w w3) = [] \<and>
         attempts_made (new_calls w w3) = 1"
proof -
  have att: "lock_attempt rt self w = (Inl (Error code m), w3)"
    using assms(2,3) by (simp add: lock_attempt_def)
  have c3: "calls w3 = calls w2
            @ [WriteFileSync (lockPath self) (JSON_stringify rt (lockData rt (clock w)))]"
    using writeFileSync_wx_calls[of "lockPath self"
            "JSON_stringify rt (lockData rt (clock w))" w2] assms(3) by simp
  obtain cs where cs: "calls w3 = calls w @ cs" "delays cs = []" "attempts_made cs = 1"
    using lock_attempt_calls[of rt self w] att by auto
  then have "new_calls w w3 = cs" by (simp add: new_calls_def)
  with cs c3 lock_loop_fatal[OF assms(1) att assms(4)] show ?thesis
    by (simp add: fatal_error_def)
qed

theorem create_failure_is_fatal_witness:
  "lock (demo_runtime []) (FileLock_new demo_lock_path)
      (world_with [] 1000 [nothing,
         \<lparr>elapsed = 0, changes = [], fault = Some (''EACCES'', ''EACCES: permission denied'')\<rparr>])
    = (Inl (Error None
         ''Failed to acquire file lock /repo/.git/kodrdriv.lock: EACCES: permission denied''),
       FileLock_new demo_lock_path,
       \<lparr>fs = Map.empty, clock = 1000, env = [],
         calls = [ExistsSync demo_lock_path,
                  WriteFileSync demo_lock_path
                    (render_lock (lockData (demo_runtime []) 1000))]\<rparr>)"
proof -
  let ?w = "world_with [] 1000 [nothing,
         \<lparr>elapsed = 0, changes = [], fault = Some (''EACCES'', ''EACCES: permission denied'')\<rparr>]"
  let ?self = "FileLock_new demo_lock_path"
  let ?w2 = "\<lparr>fs = Map.empty, clock = 1000,
      env = [\<lparr>elapsed = 0, changes = [], fault = Some (''EACCES'', ''EACCES: permission denied'')\<rparr>],
      calls = [ExistsSync demo_lock_path]\<rparr>"
  let ?w3 = "\<lparr>fs = Map.empty, clock = 1000, env = [],
         calls = [ExistsSync demo_lock_path,
                  WriteFileSync demo_lock_path (render_lock (lockData (demo_runtime []) 1000))]\<rparr>"
  have a: "0 < maxRetries ?self" by (simp add: FileLock_new_def)
  have b: "before_create (demo_runtime []) ?self ?w = (Inr (), ?w2)"
    by (simp add: before_create_def existsSync_def begin_call_def interfere_def world_with_def
          nothing_def FileLock_new_def apply_changes_def)
  have c: "writeFileSync_wx (lockPath ?self)
             (JSON_stringify (demo_runtime []) (lockData (demo_runtime []) (clock ?w))) ?w2
           = (Inl (Error (Some ''EACCES'') ''EACCES: permission denied''), ?w3)"
    by (simp add: writeFileSync_wx_def begin_call_def interfere_def world_with_def
          FileLock_new_def apply_changes_def demo_runtime_def)
  have d: "Some ''EACCES'' \<noteq> Some ''EEXIST''" by simp
  show ?thesis
    using create_failure_is_fatal[OF a b c d, of "retryDelay ?self"]
    by (simp add: lock_def FileLock_new_def demo_lock_path_def)
qed

subsection \<open>Stale, young and unparseable lock files\<close>

lemma existsSync_quiet:
  "quiet w \<Longrightarrow> existsSync p w = (fs w p \<noteq> None, w\<lparr>calls := calls w @ [ExistsSync p]\<rparr>)"
  by (simp add: existsSync_def begin_call_quiet)

lemma readFileSync_quiet_file:
  "quiet w \<Longrightarrow> fs w p = Some (File c) \<Longrightarrow>
     readFileSync p w = (Inr c, w\<lparr>calls := calls w @ [ReadFileSync p]\<rparr>)"
  by (simp add: readFileSync_def begin_call_quiet)

lemma before_create_stale:
  assumes "existsSync (lockPath self) w = (True, w1)"
    and "readFileSync (lockPath self) w1 = (Inr content, w2)"
    and "lockAge rt content (clock w2) = Inr age"
    and "js_gt age (lockTimeout self)"
  shows "before_create rt self w = (Inr (), snd (unlinkSync (lockPath self) w2))"
  using assms by (simp add: before_create_def check_stale_def)

lemma before_create_young:
  assumes "existsSync (lockPath self) w = (True, w1)"
    and "readFileSync (lockPath self) w1 = (Inr content, w2)"
    and "lockAge rt content (clock w2) = Inr age"
    and "\<not> js_gt age (lockTimeout self)"
  shows "before_create rt self w = (Inr (), w2)"
  using assms by (simp add: before_create_def check_stale_def)

lemma before_create_invalid:
  assumes "existsSync (lockPath self) w = (True, w1)"
    and "readFileSync (lockPath self) w1 = (Inr content, w2)"
    and "lockAge rt content (clock w2) = Inl e"
  shows "before_create rt self w = (Inr (), snd (unlinkSync (lockPath self) w2))"
  using assms by (simp add: before_create_def check_stale_def)

lemma exists_read_calls:
  assumes "existsSync p w = (ex, w1)" and "readFileSync p w1 = (r, w2)"
  shows "calls w2 = calls w @ [ExistsSync p, ReadFileSync p]"
  using existsSync_calls[of p w] readFileSync_calls[of p w1] assms by simp

lemma exists_read_unlink_calls:
  assumes "existsSync p w = (ex, w1)" and "readFileSync p w1 = (r, w2)"
  shows "new_calls w (snd (unlinkSync p w2)) = [ExistsSync p, ReadFileSync p, UnlinkSync p]"
  using exists_read_calls[OF assms] unlinkSync_calls[of p w2] by (simp add: new_calls_def)

text \<open>
  C5, as the claim states it: a parseable lock file younger than the threshold is never
  deleted by a competitor.  At time 30001 an attempt finds and reads the lock file written
  at time 0, which is stale.  Before the attempt's \<^verbatim>\<open>unlinkSync\<close> takes effect, another
  process has replaced the file by its own, written at time 30001: that file parses and its
  age is 0.  \<^verbatim>\<open>unlinkSync\<close> takes the path, so it removes this young file, and the attempt
  goes on to create its own lock file.
\<close>

theorem young_lock_deleted_in_race:
  "fs (snd (readFileSync demo_lock_path (snd (existsSync demo_lock_path race_world))))
      demo_lock_path = Some (File (render_lock (other_lock 0))) \<and>
   fs (snd (interfere (snd (readFileSync demo_lock_path
          (snd (existsSync demo_lock_path race_world)))))) demo_lock_path
     = Some (File (render_lock (other_lock 30001))) \<and>
   JSON_parse race_runtime (render_lock (other_lock 30001)) = Some (other_lock 30001) \<and>
   lockAge race_runtime (render_lock (other_lock 30001)) 30001 = Inr (Finite 0) \<and>
   \<not> reclaimable race_runtime (FileLock_new demo_lock_path) (render_lock (other_lock 30001)) 30001 \<and>
   new_calls race_world (snd (before_create race_runtime (FileLock_new demo_lock_path) race_world))
     = [ExistsSync demo_lock_path, ReadFileSync demo_lock_path, UnlinkSync demo_lock_path] \<and>
   fs (snd (before_create race_runtime (FileLock_new demo_lock_path) race_world)) demo_lock_path
     = None \<and>
   fst (lock_attempt race_runtime (FileLock_new demo_lock_path) race_world) = Inr ()"
  by (simp add: race_world_def race_runtime_def world_with_def nothing_def demo_runtime_def
        other_lock_def existsSync_def readFileSync_def unlinkSync_def writeFileSync_wx_def
        begin_call_def interfere_def apply_changes_def lockAge_def reclaimable_def
        before_create_def check_stale_def lock_attempt_def new_calls_def FileLock_new_def
        Let_def)

text \<open>
  C5, amended.  An attempt of \<open>lock\<close> finds the lock file and reads from it a text that
  parses with a time stamp of \<open>t\<close> whole milliseconds (the age \<open>now - t\<close> being below \<open>2\<^sup>5\<^sup>3\<close>
  in magnitude, so that the subtraction is exact).  If the age exceeds \<open>lockTimeout\<close> (30000
  for a lock made by the constructor), the attempt calls \<^verbatim>\<open>unlinkSync\<close> on the lock path
  before it comes to the create-exclusive write; the call removes the file that is at the
  path when it takes effect, be it the one read or one written since, and unless something
  interferes the path is free then.  If the age does not exceed \<open>lockTimeout\<close>, the attempt
  deletes nothing: it makes no \<^verbatim>\<open>unlinkSync\<close> call, the file it read is still there
  after the read, and unless another process removes the file meanwhile the write fails with
  \<^verbatim>\<open>EEXIST\<close> and the loop goes on to the next attempt.
\<close>

theorem stale_lock_reclaimed_young_lock_kept:
  assumes "existsSync (lockPath self) w = (True, w1)"
    and "readFileSync (lockPath self) w1 = (Inr content, w2)"
    and "JSON_parse rt content = Some existingLock"
    and "get_timestamp existingLock = Inr (Some (JNumber (Finite (of_int t))))"
    and "\<bar>clock w2 - t\<bar> < 2 ^ 53"
  shows "lockTimeout (FileLock_new p) = 30000 \<and>
    (clock w2 - t > lockTimeout self \<longrightarrow>
       before_create rt self w = (Inr (), snd (unlinkSync (lockPath self) w2)) \<and>
       new_calls w (snd (before_create rt self w))
         = [ExistsSync (lockPath self), ReadFileSync (lockPath self), UnlinkSync (lockPath self)] \<and>
       (fst (interfere w2) = None \<and> fs (snd (interfere w2)) (lockPath self) = Some (File other) \<longrightarrow>
          fs (snd (before_create rt self w)) (lockPath self) = None) \<and>
       (quiet w2 \<longrightarrow> fs (snd (before_create rt self w)) (lockPath self) = None)) \<and>
    (clock w2 - t \<le> lockTimeout self \<longrightarrow>
       before_create rt self w = (Inr (), w2) \<and>
       new_calls w w2 = [ExistsSync (lockPath self), ReadFileSync (lockPath self)] \<and>
       fs w2 (lockPath self) = Some (File content) \<and>
       (quiet w2 \<longrightarrow>
          fst (lock_attempt rt self w)
            = Inl (fs_error ''EEXIST'' ''file already exists'' ''open'' (lockPath self)) \<and>
          fs (snd (lock_attempt rt self w)) (lockPath self) = Some (File content) \<and>
          (attempts < maxRetries self \<longrightarrow>
             lock_loop rt self attempts d w =
               lock_loop rt self (attempts + 1) (min (d * (3 / 2)) (maxRetryDelay self))
                 (sleep d (snd (lock_attempt rt self w))))))"
proof -
  let ?p = "lockPath self"
  have tn: "ToNumber rt (Some (JNumber (Finite (of_int t)))) = Inr (Finite (of_int t))" by simp
  have age: "lockAge rt content (clock w2) = Inr (Finite (of_int (clock w2 - t)))"
    using lockAge_numeric[OF assms(3,4) tn assms(5)] .
  have gt: "js_gt (Finite (of_int (clock w2 - t))) (lockTimeout self) \<longleftrightarrow> clock w2 - t > lockTimeout self"
    by (simp del: of_int_diff)
  have present: "fs w2 ?p = Some (File content)" using readFileSync_Inr[OF assms(2)] .
  have stale: "before_create rt self w = (Inr (), snd (unlinkSync ?p w2)) \<and>
       new_calls w (snd (before_create rt self w)) = [ExistsSync ?p, ReadFileSync ?p, UnlinkSync ?p] \<and>
       (fst (interfere w2) = None \<and> fs (snd (interfere w2)) ?p = Some (File other) \<longrightarrow>
          fs (snd (before_create rt self w)) ?p = None) \<and>
       (quiet w2 \<longrightarrow> fs (snd (before_create rt self w)) ?p = None)"
    if "clock w2 - t > lockTimeout self"
  proof -
    have b: "before_create rt self w = (Inr (), snd (unlinkSync ?p w2))"
      using before_create_stale[OF assms(1,2) age] that gt by simp
    have "quiet w2 \<longrightarrow> fs (snd (unlinkSync ?p w2)) ?p = None"
      using present by (simp add: unlinkSync_quiet_file)
    moreover have "fst (interfere w2) = None \<and> fs (snd (interfere w2)) ?p = Some (File other) \<longrightarrow>
          fs (snd (unlinkSync ?p w2)) ?p = None"
      by (auto simp: unlinkSync_def begin_call_def split: prod.splits option.splits)
    ultimately show ?thesis using b exists_read_unlink_calls[OF assms(1,2)] by simp
  qed
  have young: "before_create rt self w = (Inr (), w2) \<and>
       new_calls w w2 = [ExistsSync ?p, ReadFileSync ?p] \<and>
       fs w2 ?p = Some (File content) \<and>
       (quiet w2 \<longrightarrow>
          fst (lock_attempt rt self w) = Inl (fs_error ''EEXIST'' ''file already exists'' ''open'' ?p) \<and>
          fs (snd (lock_attempt rt self w)) ?p = Some (File content) \<and>
          (attempts < maxRetries self \<longrightarrow>
             lock_loop rt self attempts d w =
               lock_loop rt self (attempts + 1) (min (d * (3 / 2)) (maxRetryDelay self))
                 (sleep d (snd (lock_attempt rt self w)))))"
    if "clock w2 - t \<le> lockTimeout self"
  proof -
    have b: "before_create rt self w = (Inr (), w2)"
      using before_create_young[OF assms(1,2) age] that gt by simp
    have nc: "new_calls w w2 = [ExistsSync ?p, ReadFileSync ?p]"
      using exists_read_calls[OF assms(1,2)] by (simp add: new_calls_def)
    have q: "fst (lock_attempt rt self w) = Inl (fs_error ''EEXIST'' ''file already exists'' ''open'' ?p) \<and>
          fs (snd (lock_attempt rt self w)) ?p = Some (File content) \<and>
          (attempts < maxRetries self \<longrightarrow>
             lock_loop rt self attempts d w =
               lock_loop rt self (attempts + 1) (min (d * (3 / 2)) (maxRetryDelay self))
                 (sleep d (snd (lock_attempt rt self w))))" if "quiet w2"
    proof -
      let ?w3 = "w2\<lparr>calls := calls w2 @ [WriteFileSync ?p (JSON_stringify rt (lockData rt (clock w)))]\<rparr>"
      have att: "lock_attempt rt self w = (Inl (fs_error ''EEXIST'' ''file already exists'' ''open'' ?p), ?w3)"
        using b writeFileSync_wx_quiet_present[OF that present] by (simp add: lock_attempt_def Let_def)
      then have att': "lock_attempt rt self w = (Inl (Error (Some ''EEXIST'')
          (''EEXIST: file already exists, open '' @ [CHR 0x27] @ ?p @ [CHR 0x27])), ?w3)"
        by (simp add: fs_error_def)
      show ?thesis using att present lock_loop_retry[where d = d, OF _ att'] by simp
    qed
    from b nc present q show ?thesis by blast
  qed
  have "lockTimeout (FileLock_new p) = 30000" by (simp add: FileLock_new_def)
  with stale young show ?thesis by blast
qed

text \<open>
  C9.  An attempt of \<open>lock\<close> finds the lock file and reads from it a text that
  \<^verbatim>\<open>JSON.parse\<close> rejects.  Then the attempt calls \<^verbatim>\<open>unlinkSync\<close> on the lock file
  before the create-exclusive write, at every value of the clock: no age is computed or
  compared.  Unless something interferes, the file is gone before the write, and the write
  succeeds and leaves this process's lock data in the file.
\<close>

theorem unparseable_lock_removed:
  assumes "existsSync (lockPath self) w = (True, w1)"
    and "readFileSync (lockPath self) w1 = (Inr content, w2)"
    and "JSON_parse rt content = None"
  shows "before_create rt self w = (Inr (), snd (unlinkSync (lockPath self) w2)) \<and>
     new_calls w (snd (before_create rt self w))
       = [ExistsSync (lockPath self), ReadFileSync (lockPath self), UnlinkSync (lockPath self)] \<and>
     (quiet w2 \<longrightarrow>
        fs (snd (before_create rt self w)) (lockPath self) = None \<and>
        fst (lock_attempt rt self w) = Inr () \<and>
        fs (snd (lock_attempt rt self w)) (lockPath self)
          = Some (File (JSON_stringify rt (lockData rt (clock w)))))"
proof -
  let ?p = "lockPath self"
  have age: "lockAge rt content (clock w2) = Inl (Error None ''Unexpected token in JSON'')"
    using assms(3) by (simp add: lockAge_def)
  have present: "fs w2 ?p = Some (File content)" using readFileSync_Inr[OF assms(2)] .
  have b: "before_create rt self w = (Inr (), snd (unlinkSync ?p w2))"
    using before_create_invalid[OF assms(1,2) age] .
  have q: "fs (snd (before_create rt self w)) ?p = None \<and>
        fst (lock_attempt rt self w) = Inr () \<and>
        fs (snd (lock_attempt rt self w)) ?p = Some (File (JSON_stringify rt (lockData rt (clock w))))"
    if "quiet w2"
  proof -
    let ?w3 = "w2\<lparr>calls := calls w2 @ [UnlinkSync ?p], fs := (fs w2)(?p := None)\<rparr>"
    have u: "unlinkSync ?p w2 = (Inr (), ?w3)" using unlinkSync_quiet_file[OF that present] .
    have q3: "quiet ?w3" using that by (simp add: quiet_def)
    have "fs ?w3 ?p = None" by simp
    from writeFileSync_wx_quiet_absent[OF q3 this] b u show ?thesis
      by (simp add: lock_attempt_def Let_def)
  qed
  from b q exists_read_unlink_calls[OF assms(1,2)] show ?thesis by auto
qed

lemma locked_by_other_exists:
  "existsSync demo_lock_path (locked_by_other t now)
     = (True, (locked_by_other t now)\<lparr>calls := [ExistsSync demo_lock_path]\<rparr>)"
  by (simp add: existsSync_quiet quiet_def locked_by_other_def world_with_def)

lemma locked_by_other_read:
  "readFileSync demo_lock_path ((locked_by_other t now)\<lparr>calls := [ExistsSync demo_lock_path]\<rparr>)
     = (Inr (render_lock (other_lock t)),
        (locked_by_other t now)\<lparr>calls := [ExistsSync demo_lock_path, ReadFileSync demo_lock_path]\<rparr>)"
  by (simp add: readFileSync_quiet_file quiet_def locked_by_other_def world_with_def)

lemma race_exists:
  "existsSync demo_lock_path race_world
     = (True, race_world\<lparr>env := tl (env race_world), calls := [ExistsSync demo_lock_path]\<rparr>)"
  by (simp add: race_world_def world_with_def nothing_def existsSync_def begin_call_def
        interfere_def apply_changes_def)

lemma race_read:
  "readFileSync demo_lock_path
       (race_world\<lparr>env := tl (env race_world), calls := [ExistsSync demo_lock_path]\<rparr>)
     = (Inr (render_lock (other_lock 0)),
        race_world\<lparr>env := tl (tl (env race_world)),
                    calls := [ExistsSync demo_lock_path, ReadFileSync demo_lock_path]\<rparr>)"
  by (simp add: race_world_def world_with_def nothing_def readFileSync_def begin_call_def
        interfere_def apply_changes_def)

lemma race_runtime_parse:
  "JSON_parse race_runtime (render_lock (other_lock 0)) = Some (other_lock 0)"
  by (simp add: race_runtime_def demo_runtime_def)

theorem stale_lock_reclaimed_young_lock_kept_witness:
  "fs (snd (before_create (other_runtime 60000) (FileLock_new demo_lock_path)
             (locked_by_other 60000 90001))) demo_lock_path = None \<and>
   new_calls (locked_by_other 60000 90001)
      (snd (before_create (other_runtime 60000) (FileLock_new demo_lock_path)
             (locked_by_other 60000 90001)))
     = [ExistsSync demo_lock_path, ReadFileSync demo_lock_path, UnlinkSync demo_lock_path] \<and>
   fs (snd (before_create (other_runtime 60000) (FileLock_new demo_lock_path)
             (locked_by_other 60000 90000))) demo_lock_path
     = Some (File (render_lock (other_lock 60000))) \<and>
   new_calls (locked_by_other 60000 90000)
      (snd (before_create (other_runtime 60000) (FileLock_new demo_lock_path)
             (locked_by_other 60000 90000)))
     = [ExistsSync demo_lock_path, ReadFileSync demo_lock_path] \<and>
   fst (lock_attempt (other_runtime 60000) (FileLock_new demo_lock_path)
             (locked_by_other 60000 90000))
     = Inl (fs_error ''EEXIST'' ''file already exists'' ''open'' demo_lock_path) \<and>
   fs (snd (before_create race_runtime (FileLock_new demo_lock_path) race_world)) demo_lock_path
     = None"
proof -
  let ?self = "FileLock_new demo_lock_path"
  let ?S = "(locked_by_other 60000 90001)\<lparr>calls := [ExistsSync demo_lock_path, ReadFileSync demo_lock_path]\<rparr>"
  let ?Y = "(locked_by_other 60000 90000)\<lparr>calls := [ExistsSync demo_lock_path, ReadFileSync demo_lock_path]\<rparr>"
  let ?R = "race_world\<lparr>env := tl (tl (env race_world)),
                    calls := [ExistsSync demo_lock_path, ReadFileSync demo_lock_path]\<rparr>"
  have p: "lockPath ?self = demo_lock_path" by (simp add: FileLock_new_def)
  have t: "lockTimeout ?self = 30000" by (simp add: FileLock_new_def)
  have c1: "clock ?S = 90001" by (simp add: locked_by_other_def world_with_def)
  have c2: "clock ?Y = 90000" by (simp add: locked_by_other_def world_with_def)
  have c3: "clock ?R = 30001" by (simp add: race_world_def world_with_def)
  have b1: "\<bar>clock ?S - 60000\<bar> < 2 ^ 53" unfolding c1 by simp
  have b2: "\<bar>clock ?Y - 60000\<bar> < 2 ^ 53" unfolding c2 by simp
  have b3: "\<bar>clock ?R - 0\<bar> < 2 ^ 53" unfolding c3 by simp
  note stale = stale_lock_reclaimed_young_lock_kept[where self = ?self and p = "[]"
      and other = "[]" and attempts = 0 and d = 0, unfolded p,
      OF locked_by_other_exists locked_by_other_read other_runtime_parse other_lock_timestamp b1]
  note young = stale_lock_reclaimed_young_lock_kept[where self = ?self and p = "[]"
      and other = "[]" and attempts = 0 and d = 0, unfolded p,
      OF locked_by_other_exists locked_by_other_read other_runtime_parse other_lock_timestamp b2]
  note race = stale_lock_reclaimed_young_lock_kept[where self = ?self and p = "[]"
      and other = "render_lock (other_lock 30001)" and attempts = 0 and d = 0, unfolded p,
      OF race_exists race_read race_runtime_parse other_lock_timestamp b3]
  have q1: "quiet ?S" by (simp add: locked_by_other_def world_with_def quiet_def)
  have q2: "quiet ?Y" by (simp add: locked_by_other_def world_with_def quiet_def)
  have gt: "lockTimeout ?self < clock ?S - 60000" unfolding t c1 by simp
  have le: "clock ?Y - 60000 \<le> lockTimeout ?self" unfolding t c2 by simp
  have gr: "lockTimeout ?self < clock ?R - 0" unfolding t c3 by simp
  have ir: "fst (interfere ?R) = None \<and>
      fs (snd (interfere ?R)) demo_lock_path = Some (File (render_lock (other_lock 30001)))"
    by (simp add: race_world_def world_with_def interfere_def apply_changes_def)
  from stale gt q1 have s: "fs (snd (before_create (other_runtime 60000) ?self
             (locked_by_other 60000 90001))) demo_lock_path = None \<and>
   new_calls (locked_by_other 60000 90001)
      (snd (before_create (other_runtime 60000) ?self (locked_by_other 60000 90001)))
     = [ExistsSync demo_lock_path, ReadFileSync demo_lock_path, UnlinkSync demo_lock_path]"
    by blast
  from young le q2 have y0: "before_create (other_runtime 60000) ?self (locked_by_other 60000 90000)
       = (Inr (), ?Y) \<and>
     new_calls (locked_by_other 60000 90000) ?Y
       = [ExistsSync demo_lock_path, ReadFileSync demo_lock_path] \<and>
     fs ?Y demo_lock_path = Some (File (render_lock (other_lock 60000))) \<and>
     fst (lock_attempt (other_runtime 60000) ?self (locked_by_other 60000 90000))
     = Inl (fs_error ''EEXIST'' ''file already exists'' ''open'' demo_lock_path)"
    by blast
  then have y: "fs (snd (before_create (other_runtime 60000) ?self
             (locked_by_other 60000 90000))) demo_lock_path
     = Some (File (render_lock (other_lock 60000))) \<and>
   new_calls (locked_by_other 60000 90000)
      (snd (before_create (other_runtime 60000) ?self (locked_by_other 60000 90000)))
     = [ExistsSync demo_lock_path, ReadFileSync demo_lock_path] \<and>
   fst (lock_attempt (other_runtime 60000) ?self (locked_by_other 60000 90000))
     = Inl (fs_error ''EEXIST'' ''file already exists'' ''open'' demo_lock_path)"
    by simp
  from race gr ir have r: "fs (snd (before_create race_runtime ?self race_world)) demo_lock_path
     = None"
    by blast
  from s y r show ?thesis by blast
qed

lemma garbled_exists:
  "existsSync demo_lock_path (garbled_lock now)
     = (True, (garbled_lock now)\<lparr>calls := [ExistsSync demo_lock_path]\<rparr>)"
  by (simp add: existsSync_quiet quiet_def garbled_lock_def world_with_def)

lemma garbled_read:
  "readFileSync demo_lock_path ((garbled_lock now)\<lparr>calls := [ExistsSync demo_lock_path]\<rparr>)
     = (Inr ''{ pid: 17, timest'',
        (garbled_lock now)\<lparr>calls := [ExistsSync demo_lock_path, ReadFileSync demo_lock_path]\<rparr>)"
  by (simp add: readFileSync_quiet_file quiet_def garbled_lock_def world_with_def)

theorem unparseable_lock_removed_witness:
  "fs (snd (before_create (demo_runtime []) (FileLock_new demo_lock_path) (garbled_lock 5)))
      demo_lock_path = None \<and>
   new_calls (garbled_lock 5)
      (snd (before_create (demo_runtime []) (FileLock_new demo_lock_path) (garbled_lock 5)))
     = [ExistsSync demo_lock_path, ReadFileSync demo_lock_path, UnlinkSync demo_lock_path] \<and>
   fst (lock_attempt (demo_runtime []) (FileLock_new demo_lock_path) (garbled_lock 5)) = Inr () \<and>
   fs (snd (lock_attempt (demo_runtime []) (FileLock_new demo_lock_path) (garbled_lock 5)))
      demo_lock_path = Some (File (render_lock (lockData (demo_runtime []) 5)))"
proof -
  let ?self = "FileLock_new demo_lock_path"
  have p: "lockPath ?self = demo_lock_path" by (simp add: FileLock_new_def)
  have np: "JSON_parse (demo_runtime []) ''{ pid: 17, timest'' = None"
    by (simp add: demo_runtime_def)
  note inst = unparseable_lock_removed[of ?self "garbled_lock 5", unfolded p,
      OF garbled_exists garbled_read np]
  have q: "quiet ((garbled_lock 5)\<lparr>calls := [ExistsSync demo_lock_path, ReadFileSync demo_lock_path]\<rparr>)"
    by (simp add: garbled_lock_def world_with_def quiet_def)
  have c: "clock (garbled_lock 5) = 5" by (simp add: garbled_lock_def world_with_def)
  have s: "JSON_stringify (demo_runtime []) = render_lock" by (simp add: demo_runtime_def)
  from inst q show ?thesis unfolding c s by blast
qed

section \<open>Properties of withGitLock\<close>

lemma lock_loop_self:
  "fst (snd (lock_loop rt self a d w)) =
     (case fst (lock_loop rt self a d w) of Inl e \<Rightarrow> self | Inr u \<Rightarrow> self\<lparr>lockAcquired := True\<rparr>)"
proof (induction "maxRetries self - a" arbitrary: a d w)
  case 0
  then have "\<not> a < maxRetries self" by simp
  then show ?case by (simp add: lock_loop_exhausted)
next
  case (Suc n)
  then have lt: "a < maxRetries self" by simp
  obtain r w1 where att: "lock_attempt rt self w = (r, w1)" by (cases "lock_attempt rt self w")
  show ?case
  proof (cases r)
    case (Inr u)
    with lt att show ?thesis by (simp add: lock_loop_acquired)
  next
    case (Inl e)
    then obtain c m where e: "e = Error c m" using lock_attempt_Error[of rt self w e] att by auto
    show ?thesis
    proof (cases "c = Some ''EEXIST''")
      case False
      with lt att Inl e show ?thesis by (simp add: lock_loop_fatal)
    next
      case True
      have n: "n = maxRetries self - (a + 1)" using Suc.hyps(2) by simp
      show ?thesis
        using lt att Inl e True Suc.hyps(1)[OF n] by (simp add: lock_loop_retry)
    qed
  qed
qed

lemma lock_Inr_self:
  "lock rt self w = (Inr u, self', w') \<Longrightarrow> self' = self\<lparr>lockAcquired := True\<rparr>"
  using lock_loop_self[of rt self 0 "retryDelay self" w] by (simp add: lock_def)

lemma lock_Inl_self:
  "lock rt self w = (Inl e, self', w') \<Longrightarrow> self' = self"
  using lock_loop_self[of rt self 0 "retryDelay self" w] by (simp add: lock_def)

lemma unlock_self:
  "lockAcquired self \<Longrightarrow> fst (snd (unlock self w)) = self\<lparr>lockAcquired := False\<rparr>"
  using unlock_result[of self w]
  by (auto simp: unlock_def split: prod.splits sum.splits if_splits)

lemma writeFileSync_wx_Inr:
  "writeFileSync_wx p d w = (Inr u, w') \<Longrightarrow>
     fs (snd (interfere w)) p = None \<and> fs w' = (fs (snd (interfere w)))(p \<mapsto> File d)"
  by (auto simp: writeFileSync_wx_def begin_call_def split: prod.splits option.splits)

lemma lock_attempt_Inr:
  "lock_attempt rt self w = (Inr u, w') \<Longrightarrow>
     \<exists>w2. before_create rt self w = (Inr (), w2) \<and>
          fs (snd (interfere w2)) (lockPath self) = None \<and>
          fs w' = (fs (snd (interfere w2)))
                    (lockPath self \<mapsto> File (JSON_stringify rt (lockData rt (clock w)))) \<and>
          calls w' = calls w2
            @ [WriteFileSync (lockPath self) (JSON_stringify rt (lockData rt (clock w)))]"
proof -
  assume a: "lock_attempt rt self w = (Inr u, w')"
  obtain r w2 where b: "before_create rt self w = (r, w2)" by (cases "before_create rt self w")
  with a have r: "r = Inr ()" by (cases r) (simp_all add: lock_attempt_def Let_def)
  with a b have wr: "writeFileSync_wx (lockPath self)
       (JSON_stringify rt (lockData rt (clock w))) w2 = (Inr u, w')"
    by (simp add: lock_attempt_def Let_def)
  from writeFileSync_wx_Inr[OF wr]
    writeFileSync_wx_calls[of "lockPath self" "JSON_stringify rt (lockData rt (clock w))" w2] wr b r
  show ?thesis by simp
qed

text \<open>
  A successful \<open>lock\<close> ends with a create-exclusive write that found no lock file and
  left this process's lock data in it.
\<close>

lemma lock_loop_Inr_created:
  "fst (lock_loop rt self a d w) = Inr u \<Longrightarrow>
     \<exists>t. fs (snd (snd (lock_loop rt self a d w))) (lockPath self)
            = Some (File (JSON_stringify rt (lockData rt t))) \<and>
         last (calls (snd (snd (lock_loop rt self a d w))))
            = WriteFileSync (lockPath self) (JSON_stringify rt (lockData rt t))"
proof (induction "maxRetries self - a" arbitrary: a d w)
  case 0
  then have "\<not> a < maxRetries self" by simp
  with 0 show ?case by (simp add: lock_loop_exhausted)
next
  case (Suc n)
  then have lt: "a < maxRetries self" by simp
  obtain r w1 where att: "lock_attempt rt self w = (r, w1)" by (cases "lock_attempt rt self w")
  show ?case
  proof (cases r)
    case (Inr v)
    with att have "lock_attempt rt self w = (Inr v, w1)" by simp
    from lock_attempt_Inr[OF this] lt att Inr show ?thesis
      by (auto simp: lock_loop_acquired)
  next
    case (Inl e)
    then obtain c m where e: "e = Error c m" using lock_attempt_Error[of rt self w e] att by auto
    show ?thesis
    proof (cases "c = Some ''EEXIST''")
      case False
      with lt att Inl e Suc.prems show ?thesis by (simp add: lock_loop_fatal)
    next
      case True
      have n: "n = maxRetries self - (a + 1)" using Suc.hyps(2) by simp
      have step: "lock_loop rt self a d w = lock_loop rt self (a + 1)
          (min (d * (3 / 2)) (maxRetryDelay self)) (sleep d w1)"
        using lt att Inl e True by (simp add: lock_loop_retry)
      show ?thesis
        using Suc.hyps(1)[OF n, of "min (d * (3 / 2)) (maxRetryDelay self)" "sleep d w1"] Suc.prems
        unfolding step by simp
    qed
  qed
qed

lemma getRepositoryLock_lookup:
  "getRepositoryLock rt mgr repoPath w = (Inr key, mgr1, w1) \<Longrightarrow>
     \<exists>lk. map_of (locks mgr1) key = Some lk"
  by (auto simp: getRepositoryLock_def Let_def update_conv
           split: if_splits prod.splits sum.splits)

text \<open>
  C3.  \<open>withGitLock\<close> first gets the repository's lock and acquires it.  If getting or
  acquiring the lock fails, the error is the outcome of \<open>withGitLock\<close> for every operation:
  the outcome does not depend on the operation, which is not run.  If the lock is acquired,
  the operation runs on the world in which the lock is held (the flag is set and the lock
  file holds this process's data); whether the operation returns a value or throws, its
  outcome is the outcome of \<open>withGitLock\<close>, \<open>unlock\<close> has run after it, and the lock kept
  by the manager is no longer held.  Unless something interferes, the lock file is gone.
\<close>

theorem withGitLock_acquires_and_releases:
  "(getRepositoryLock rt mgr repoPath w = (Inl e, mgr1, w1) \<longrightarrow>
      (\<forall>operation :: world \<Rightarrow> (thrown + 'a) \<times> world.
         withGitLock rt mgr repoPath operation w = (Inl e, mgr1, w1))) \<and>
   (getRepositoryLock rt mgr repoPath w = (Inr key, mgr1, w1) \<and>
    map_of (locks mgr1) key = Some lk \<and> lock rt lk w1 = (Inl e, lk2, w2) \<longrightarrow>
      (\<forall>operation :: world \<Rightarrow> (thrown + 'a) \<times> world.
         withGitLock rt mgr repoPath operation w
           = (Inl e, mgr1\<lparr>locks := AList.update key lk (locks mgr1)\<rparr>, w2))) \<and>
   (getRepositoryLock rt mgr repoPath w = (Inr key, mgr1, w1) \<and>
    map_of (locks mgr1) key = Some lk \<and> lock rt lk w1 = (Inr u, lk2, w2) \<and>
    (operation :: world \<Rightarrow> (thrown + 'a) \<times> world) w2 = (result, w3) \<longrightarrow>
      lockAcquired lk2 \<and>
      (\<exists>t. fs w2 (lockPath lk) = Some (File (JSON_stringify rt (lockData rt t)))) \<and>
      withGitLock rt mgr repoPath operation w
        = (result, mgr1\<lparr>locks := AList.update key (lk\<lparr>lockAcquired := False\<rparr>) (locks mgr1)\<rparr>,
           snd (snd (unlock lk2 w3))) \<and>
      (quiet w3 \<and> fs w3 (lockPath lk) = fs w2 (lockPath lk) \<longrightarrow>
         fs (snd (snd (unlock lk2 w3))) (lockPath lk) = None))"
proof -
  have c1: "\<forall>operation :: world \<Rightarrow> (thrown + 'a) \<times> world.
      withGitLock rt mgr repoPath operation w = (Inl e, mgr1, w1)"
    if "getRepositoryLock rt mgr repoPath w = (Inl e, mgr1, w1)"
    using that by (simp add: withGitLock_def)
  have c2: "\<forall>operation :: world \<Rightarrow> (thrown + 'a) \<times> world.
      withGitLock rt mgr repoPath operation w
        = (Inl e, mgr1\<lparr>locks := AList.update key lk (locks mgr1)\<rparr>, w2)"
    if "getRepositoryLock rt mgr repoPath w = (Inr key, mgr1, w1)"
      "map_of (locks mgr1) key = Some lk" "lock rt lk w1 = (Inl e, lk2, w2)"
    using that lock_Inl_self[OF that(3)] by (simp add: withGitLock_def)
  have c3: "lockAcquired lk2 \<and>
      (\<exists>t. fs w2 (lockPath lk) = Some (File (JSON_stringify rt (lockData rt t)))) \<and>
      withGitLock rt mgr repoPath operation w
        = (result, mgr1\<lparr>locks := AList.update key (lk\<lparr>lockAcquired := False\<rparr>) (locks mgr1)\<rparr>,
           snd (snd (unlock lk2 w3))) \<and>
      (quiet w3 \<and> fs w3 (lockPath lk) = fs w2 (lockPath lk) \<longrightarrow>
         fs (snd (snd (unlock lk2 w3))) (lockPath lk) = None)"
    if g: "getRepositoryLock rt mgr repoPath w = (Inr key, mgr1, w1)"
      and m: "map_of (locks mgr1) key = Some lk" and l: "lock rt lk w1 = (Inr u, lk2, w2)"
      and o: "operation w2 = (result, w3)"
  proof -
    have lk2: "lk2 = lk\<lparr>lockAcquired := True\<rparr>" using lock_Inr_self[OF l] .
    then have held: "lockAcquired lk2" by simp
    have created: "\<exists>t. fs w2 (lockPath lk) = Some (File (JSON_stringify rt (lockData rt t)))"
      using lock_loop_Inr_created[of rt lk 0 "retryDelay lk" w1 u] l by (auto simp: lock_def)
    obtain ur lk4 w4 where un: "unlock lk2 w3 = (ur, lk4, w4)" by (cases "unlock lk2 w3") auto
    have ur: "ur = Inr ()" using unlock_result[of lk2 w3] un by simp
    have lk4: "lk4 = lk\<lparr>lockAcquired := False\<rparr>"
      using unlock_self[OF held, of w3] un lk2 by simp
    have res: "withGitLock rt mgr repoPath operation w
        = (result, mgr1\<lparr>locks := AList.update key (lk\<lparr>lockAcquired := False\<rparr>) (locks mgr1)\<rparr>,
           snd (snd (unlock lk2 w3)))"
      using g m l o un ur lk4 by (simp add: withGitLock_def)
    have gone: "fs (snd (snd (unlock lk2 w3))) (lockPath lk) = None"
      if "quiet w3" "fs w3 (lockPath lk) = fs w2 (lockPath lk)"
    proof -
      from created that(2) obtain c where c: "fs w3 (lockPath lk2) = Some (File c)"
        using lk2 by auto
      show ?thesis using unlock_quiet_file[OF held that(1) c] lk2 by simp
    qed
    from held created res gone show ?thesis by blast
  qed
  from c1 c2 c3 show ?thesis by blast
qed

lemma lock_quiet_free:
  assumes "0 < maxRetries self" "quiet w" "fs w (lockPath self) = None"
  shows "lock rt self w =
     (Inr (), self\<lparr>lockAcquired := True\<rparr>,
      w\<lparr>calls := calls w @ [ExistsSync (lockPath self),
             WriteFileSync (lockPath self) (JSON_stringify rt (lockData rt (clock w)))],
        fs := (fs w)(lockPath self \<mapsto> File (JSON_stringify rt (lockData rt (clock w))))\<rparr>)"
proof -
  have "lock_attempt rt self w =
     (Inr (), w\<lparr>calls := calls w @ [ExistsSync (lockPath self),
             WriteFileSync (lockPath self) (JSON_stringify rt (lockData rt (clock w)))],
        fs := (fs w)(lockPath self \<mapsto> File (JSON_stringify rt (lockData rt (clock w))))\<rparr>)"
    using assms(2,3)
    by (simp add: lock_attempt_def before_create_def existsSync_def writeFileSync_wx_def
          begin_call_quiet quiet_def Let_def)
  from lock_loop_acquired[OF assms(1) this] show ?thesis by (simp add: lock_def)
qed

lemma repo_getRepositoryLock:
  "getRepositoryLock (demo_runtime table) RepositoryFileLockManager_new ''/repo''
      (repo_world files now)
     = (Inr ''/repo'',
        \<lparr>locks = [(''/repo'', FileLock_new demo_lock_path)], cleanupRegistered = True\<rparr>,
        (repo_world files now)\<lparr>calls := [StatSync ''/repo/.git'']\<rparr>)"
  by (simp add: getRepositoryLock_def resolveGitDirectory_def resolve_try_def statSync_def
        begin_call_def interfere_def repo_world_def world_with_def demo_runtime_def
        RepositoryFileLockManager_new_def demo_lock_path_def Let_def
        posix_join_def posix_resolve_def posix_normalize_def resolve_segment_def)

theorem withGitLock_acquires_and_releases_witness:
  "fst (withGitLock (demo_runtime []) RepositoryFileLockManager_new ''/repo'' failing_operation
      (repo_world [] 1000)) = Inl (Error None ''operation failed'') \<and>
   fst (snd (withGitLock (demo_runtime []) RepositoryFileLockManager_new ''/repo''
      failing_operation (repo_world [] 1000)))
     = \<lparr>locks = [(''/repo'', FileLock_new demo_lock_path)], cleanupRegistered = True\<rparr> \<and>
   fs (snd (snd (withGitLock (demo_runtime []) RepositoryFileLockManager_new ''/repo''
      failing_operation (repo_world [] 1000)))) demo_lock_path = None \<and>
   calls (snd (snd (withGitLock (demo_runtime []) RepositoryFileLockManager_new ''/repo''
      failing_operation (repo_world [] 1000))))
     = [StatSync ''/repo/.git'', ExistsSync demo_lock_path,
        WriteFileSync demo_lock_path (render_lock (lockData (demo_runtime []) 1000)),
        ExistsSync demo_lock_path, UnlinkSync demo_lock_path] \<and>
   fst (withGitLock (other_runtime 500000) RepositoryFileLockManager_new ''/repo''
          marking_operation
          (repo_world [(demo_lock_path, File (render_lock (other_lock 500000)))] 0))
     = Inl (Error None
         ''Failed to acquire file lock after 100 attempts: /repo/.git/kodrdriv.lock'') \<and>
   fs (snd (snd (withGitLock (other_runtime 500000) RepositoryFileLockManager_new ''/repo''
          marking_operation
          (repo_world [(demo_lock_path, File (render_lock (other_lock 500000)))] 0))))
      ''/repo/mark'' = None"
proof -
  let ?mgr1 = "\<lparr>locks = [(''/repo'', FileLock_new demo_lock_path)], cleanupRegistered = True\<rparr>"
  let ?lk = "FileLock_new demo_lock_path"
  have m: "map_of (locks ?mgr1) ''/repo'' = Some ?lk" by simp
  have mr: "0 < maxRetries ?lk" by (simp add: FileLock_new_def)
  have lp: "lockPath ?lk = demo_lock_path" by (simp add: FileLock_new_def)
  \<comment> \<open>the lock is free: the operation runs, throws, and the lock is released\<close>
  let ?w1 = "(repo_world [] 1000)\<lparr>calls := [StatSync ''/repo/.git'']\<rparr>"
  let ?d = "JSON_stringify (demo_runtime []) (lockData (demo_runtime []) 1000)"
  let ?w2 = "?w1\<lparr>calls := calls ?w1 @ [ExistsSync demo_lock_path, WriteFileSync demo_lock_path ?d],
        fs := (fs ?w1)(demo_lock_path \<mapsto> File ?d)\<rparr>"
  have q1: "quiet ?w1" by (simp add: repo_world_def world_with_def quiet_def)
  have f1: "fs ?w1 (lockPath ?lk) = None"
    by (simp add: repo_world_def world_with_def FileLock_new_def demo_lock_path_def)
  have c1: "clock ?w1 = 1000" by (simp add: repo_world_def world_with_def)
  have l1: "lock (demo_runtime []) ?lk ?w1 = (Inr (), ?lk\<lparr>lockAcquired := True\<rparr>, ?w2)"
    using lock_quiet_free[OF mr q1 f1, of "demo_runtime []"] unfolding lp c1 by simp
  have o1: "failing_operation ?w2 = (Inl (Error None ''operation failed''), ?w2)"
    by (simp add: failing_operation_def)
  have q2: "quiet ?w2" using q1 by (simp add: quiet_def)
  note a = withGitLock_acquires_and_releases[where rt = "demo_runtime []"
      and mgr = RepositoryFileLockManager_new and repoPath = "''/repo''"
      and w = "repo_world [] 1000" and ?mgr1.0 = ?mgr1 and ?w1.0 = ?w1 and key = "''/repo''"
      and lk = ?lk and ?lk2.0 = "?lk\<lparr>lockAcquired := True\<rparr>" and ?w2.0 = ?w2 and u = "()"
      and operation = failing_operation and result = "Inl (Error None ''operation failed'')"
      and ?w3.0 = ?w2]
  from a repo_getRepositoryLock[of "[]" "[]" 1000] m l1 o1
  have r1: "withGitLock (demo_runtime []) RepositoryFileLockManager_new ''/repo'' failing_operation
      (repo_world [] 1000)
     = (Inl (Error None ''operation failed''),
        ?mgr1\<lparr>locks := AList.update ''/repo'' (?lk\<lparr>lockAcquired := False\<rparr>) (locks ?mgr1)\<rparr>,
        snd (snd (unlock (?lk\<lparr>lockAcquired := True\<rparr>) ?w2)))"
    by blast
  have held: "lockAcquired (?lk\<lparr>lockAcquired := True\<rparr>)" by simp
  have f2: "fs ?w2 (lockPath (?lk\<lparr>lockAcquired := True\<rparr>)) = Some (File ?d)"
    by (simp add: FileLock_new_def)
  let ?w4 = "snd (snd (unlock (?lk\<lparr>lockAcquired := True\<rparr>) ?w2))"
  have u1: "fs ?w4 demo_lock_path = None \<and>
     calls ?w4 = [StatSync ''/repo/.git'', ExistsSync demo_lock_path,
                   WriteFileSync demo_lock_path (render_lock (lockData (demo_runtime []) 1000)),
                   ExistsSync demo_lock_path, UnlinkSync demo_lock_path]"
    unfolding unlock_quiet_file[OF held q2 f2]
    by (simp add: repo_world_def world_with_def FileLock_new_def demo_runtime_def)
  have first: "withGitLock (demo_runtime []) RepositoryFileLockManager_new ''/repo'' failing_operation
      (repo_world [] 1000)
     = (Inl (Error None ''operation failed''), ?mgr1, ?w4)"
    unfolding r1 by (simp add: FileLock_new_def)
  \<comment> \<open>the lock is taken and stays young: the operation does not run\<close>
  let ?rt = "other_runtime 500000"
  let ?v = "repo_world [(demo_lock_path, File (render_lock (other_lock 500000)))] 0"
  let ?v1 = "?v\<lparr>calls := [StatSync ''/repo/.git'']\<rparr>"
  obtain e lk2 v2 where l2: "lock ?rt ?lk ?v1 = (e, lk2, v2)" by (cases "lock ?rt ?lk ?v1") auto
  have qv: "quiet ?v1" by (simp add: repo_world_def world_with_def quiet_def)
  have fv: "fs ?v1 (lockPath ?lk) = Some (File (render_lock (other_lock 500000)))"
    by (simp add: repo_world_def world_with_def FileLock_new_def demo_lock_path_def)
  have p: "JSON_parse ?rt (render_lock (other_lock 500000)) = Some (other_lock 500000)"
    by (rule other_runtime_parse)
  have tn: "ToNumber ?rt (Some (JNumber (Finite (of_int 500000)))) = Inr (Finite (of_int 500000))"
    by simp
  have young: "fst (lock_loop ?rt ?lk 0 100 ?v1) = Inl (timeout_error ?lk) \<and>
      fs (snd (snd (lock_loop ?rt ?lk 0 100 ?v1))) = fs ?v1"
    using lock_loop_young_lock_stays[OF p other_lock_timestamp tn, of ?lk 2000 ?v1 100 0] qv fv
    by (simp add: FileLock_new_def repo_world_def world_with_def)
  then have e: "e = Inl (timeout_error ?lk)" and fv2: "fs v2 = fs ?v1"
    using l2 by (simp_all add: lock_def FileLock_new_def)
  have te: "timeout_error ?lk = Error None
         ''Failed to acquire file lock after 100 attempts: /repo/.git/kodrdriv.lock''"
    by (simp add: timeout_error_def FileLock_new_def digit_char_def demo_lock_path_def)
  note b = withGitLock_acquires_and_releases[where rt = ?rt
      and mgr = RepositoryFileLockManager_new and repoPath = "''/repo''"
      and w = ?v and e = "timeout_error ?lk" and ?mgr1.0 = ?mgr1 and ?w1.0 = ?v1
      and key = "''/repo''" and lk = ?lk and ?lk2.0 = lk2 and ?w2.0 = v2
      and operation = marking_operation]
  have g2: "getRepositoryLock ?rt RepositoryFileLockManager_new ''/repo'' ?v
      = (Inr ''/repo'', ?mgr1, ?v1)"
    using repo_getRepositoryLock[of "[(render_lock (other_lock 500000), other_lock 500000)]"
        "[(demo_lock_path, File (render_lock (other_lock 500000)))]" 0]
    by (simp add: other_runtime_def)
  from b g2 m l2 e
  have r2: "withGitLock ?rt RepositoryFileLockManager_new ''/repo'' marking_operation ?v
     = (Inl (timeout_error ?lk), ?mgr1\<lparr>locks := AList.update ''/repo'' ?lk (locks ?mgr1)\<rparr>, v2)"
    by blast
  have nomark: "fs v2 ''/repo/mark'' = None"
    unfolding fv2 by (simp add: repo_world_def world_with_def demo_lock_path_def)
  from u1 r2 te nomark show ?thesis unfolding first by simp
qed

section \<open>Properties of resolveGitDirectory\<close>

lemma statSync_quiet:
  "quiet w \<Longrightarrow> statSync p w =
     (case fs w p of
        None \<Rightarrow> Inl (fs_error ''ENOENT'' ''no such file or directory'' ''stat'' p)
      | Some n \<Rightarrow> Inr n, w\<lparr>calls := calls w @ [StatSync p]\<rparr>)"
  by (simp add: statSync_def begin_call_quiet split: option.splits)

lemma statSync_Error: "fst (statSync p w) = Inl e \<Longrightarrow> \<exists>c m. e = Error c m"
  by (auto simp: statSync_def fs_error_def split: prod.splits option.splits)

lemma resolve_try_Error: "fst (resolve_try rt repoPath gitPath w) = Inl e \<Longrightarrow> \<exists>c m. e = Error c m"
proof -
  assume a: "fst (resolve_try rt repoPath gitPath w) = Inl e"
  obtain r w1 where s: "statSync gitPath w = (r, w1)" by (cases "statSync gitPath w")
  show ?thesis
  proof (cases r)
    case (Inl e')
    with a s statSync_Error[of gitPath w e'] show ?thesis by (simp add: resolve_try_def)
  next
    case (Inr stat)
    obtain r2 w2 where rd: "readFileSync gitPath w1 = (r2, w2)" by (cases "readFileSync gitPath w1")
    show ?thesis
    proof (cases r2)
      case (Inl e')
      with a s Inr rd readFileSync_Error[of gitPath w1 e'] show ?thesis
        by (auto simp: resolve_try_def split: if_splits)
    next
      case (Inr content)
      with a s \<open>r = Inr stat\<close> rd show ?thesis
        by (auto simp: resolve_try_def Let_def split: if_splits option.splits prod.splits bool.splits)
    qed
  qed
qed

lemma resolveGitDirectory_names_path:
  "fst (resolveGitDirectory rt repoPath w) = Inl e \<Longrightarrow>
     e = Error None (''No .git directory or file found in '' @ repoPath) \<or>
     (\<exists>m. e = Error None (''Failed to resolve git directory for '' @ repoPath @ '': '' @ m))"
proof -
  assume a: "fst (resolveGitDirectory rt repoPath w) = Inl e"
  obtain r w1 where t: "resolve_try rt repoPath (path_join rt repoPath ''.git'') w = (r, w1)"
    by (cases "resolve_try rt repoPath (path_join rt repoPath ''.git'') w")
  show ?thesis
  proof (cases r)
    case (Inr v)
    with a t show ?thesis by (cases v) (simp_all add: resolveGitDirectory_def)
  next
    case (Inl e')
    with t resolve_try_Error[of rt repoPath "path_join rt repoPath ''.git''" w e']
    obtain c m where "e' = Error c m" by auto
    with a t Inl show ?thesis by (auto simp: resolveGitDirectory_def split: if_splits)
  qed
qed

lemma trim_gitdir_line:
  assumes "g \<noteq> []" "\<not> is_space (hd g)" "\<not> is_space (last g)"
  shows "trim (''gitdir: '' @ g @ [CHR 0x0A]) = ''gitdir: '' @ g"
proof -
  have a: "dropWhile is_space (''gitdir: '' @ g @ [CHR 0x0A]) = ''gitdir: '' @ g @ [CHR 0x0A]"
    by (simp add: is_space_def)
  have "rev (''gitdir: '' @ g @ [CHR 0x0A]) = CHR 0x0A # rev g @ rev ''gitdir: ''" by simp
  moreover have "is_space (CHR 0x0A)" by (simp add: is_space_def)
  moreover have "dropWhile is_space (rev g @ rev ''gitdir: '') = rev g @ rev ''gitdir: ''"
    using assms(1,3) by (cases g rule: rev_cases) simp_all
  ultimately have "dropWhile is_space (rev (''gitdir: '' @ g @ [CHR 0x0A])) = rev g @ rev ''gitdir: ''"
    by simp
  then show ?thesis unfolding trim_def a by simp
qed

lemma match_gitdir_line:
  assumes "g \<noteq> []" "\<not> is_space (hd g)" "list_all (\<lambda>c. \<not> line_terminator c) g"
  shows "match_gitdir (''gitdir: '' @ g) = Some g"
proof -
  have "takeWhile is_space ('' '' @ g) = '' ''"
    using assms(1,2) by (cases g) (simp_all add: is_space_def)
  then show ?thesis using assms(1,3) by (simp add: match_gitdir_def dot_plus_end_def)
qed

lemma match_gitdir_prefix: "take 7 s \<noteq> ''gitdir:'' \<Longrightarrow> match_gitdir s = None"
  by (simp add: match_gitdir_def)

lemma match_gitdir_nonempty: "match_gitdir s = Some g \<Longrightarrow> g \<noteq> []"
proof -
  have sp: "spaces_then k r = Some g \<Longrightarrow> g \<noteq> []" for k r
    by (induction k) (auto simp: dot_plus_end_def split: if_splits option.splits)
  assume "match_gitdir s = Some g"
  then show ?thesis using sp by (auto simp: match_gitdir_def split: if_splits)
qed

text \<open>
  C7.  On a file system that nothing else touches meanwhile, \<open>resolveGitDirectory\<close>
  returns \<^verbatim>\<open>path.join(repoPath, '.git')\<close> when that is a directory.  When it is a file
  whose trimmed content matches \<^verbatim>\<open>/^gitdir:\s*(.+)$/\<close>, the captured path is resolved
  against \<open>repoPath\<close>; the resolved path is returned if it exists, and an error naming
  \<open>repoPath\<close> and the resolved path is raised if it does not.  A line \<^verbatim>\<open>gitdir: <path>\<close>
  matches and captures the path.  A file whose trimmed content does not start with
  \<^verbatim>\<open>gitdir:\<close> gives an error naming \<open>repoPath\<close>, the \<^verbatim>\<open>.git\<close> path and the content;
  a missing \<^verbatim>\<open>.git\<close> gives an error naming \<open>repoPath\<close>.  In every world, an error of
  \<open>resolveGitDirectory\<close> has \<open>repoPath\<close> in its message.
\<close>

theorem resolveGitDirectory_cases:
  "(quiet w \<and> fs w (path_join rt repoPath ''.git'') = Some Dir \<longrightarrow>
      fst (resolveGitDirectory rt repoPath w) = Inr (path_join rt repoPath ''.git'')) \<and>
   (quiet w \<and> fs w (path_join rt repoPath ''.git'') = Some (File content) \<and>
    match_gitdir (trim content) = Some g \<and> fs w (path_resolve rt [repoPath, g]) \<noteq> None \<longrightarrow>
      fst (resolveGitDirectory rt repoPath w) = Inr (path_resolve rt [repoPath, g])) \<and>
   (quiet w \<and> fs w (path_join rt repoPath ''.git'') = Some (File content) \<and>
    match_gitdir (trim content) = Some g \<and> fs w (path_resolve rt [repoPath, g]) = None \<longrightarrow>
      fst (resolveGitDirectory rt repoPath w)
        = Inl (Error None (''Failed to resolve git directory for '' @ repoPath
              @ '': Submodule git directory does not exist: ''
              @ path_resolve rt [repoPath, g]))) \<and>
   (quiet w \<and> fs w (path_join rt repoPath ''.git'') = Some (File content) \<and>
    take 7 (trim content) \<noteq> ''gitdir:'' \<longrightarrow>
      fst (resolveGitDirectory rt repoPath w)
        = Inl (Error None (''Failed to resolve git directory for '' @ repoPath
              @ '': Invalid .git file format in '' @ path_join rt repoPath ''.git''
              @ '': '' @ trim content))) \<and>
   (quiet w \<and> fs w (path_join rt repoPath ''.git'') = None \<longrightarrow>
      fst (resolveGitDirectory rt repoPath w)
        = Inl (Error None (''No .git directory or file found in '' @ repoPath))) \<and>
   (line \<noteq> [] \<and> \<not> is_space (hd line) \<and> \<not> is_space (last line) \<and>
    list_all (\<lambda>c. \<not> line_terminator c) line \<longrightarrow>
      match_gitdir (trim (''gitdir: '' @ line @ [CHR 0x0A])) = Some line) \<and>
   (fst (resolveGitDirectory rt repoPath w) = Inl e \<longrightarrow>
      (\<exists>m. e = Error None (m @ repoPath) \<or>
           e = Error None (''Failed to resolve git directory for '' @ repoPath @ '': '' @ m)))"
proof -
  let ?git = "path_join rt repoPath ''.git''"
  have c1: "fst (resolveGitDirectory rt repoPath w) = Inr ?git"
    if "quiet w" "fs w ?git = Some Dir"
    using that by (simp add: resolveGitDirectory_def resolve_try_def statSync_quiet Let_def)
  have q1: "quiet (w\<lparr>calls := calls w @ [StatSync ?git]\<rparr>)" if "quiet w"
    using that by (simp add: quiet_def)
  have rd: "resolve_try rt repoPath ?git w =
      (let w2 = w\<lparr>calls := calls w @ [StatSync ?git, ReadFileSync ?git]\<rparr>;
           gitFileContent = trim content;
           invalid = (Inl (Error None (''Invalid .git file format in '' @ ?git
                                    @ '': '' @ gitFileContent)), w2)
       in case match_gitdir gitFileContent of
            Some m1 \<Rightarrow>
              if m1 \<noteq> [] then
                (let gitDirPath = path_resolve rt [repoPath, m1] in
                 case existsSync gitDirPath w2 of
                   (False, w3) \<Rightarrow>
                     (Inl (Error None (''Submodule git directory does not exist: ''
                              @ gitDirPath)), w3)
                 | (True, w3) \<Rightarrow> (Inr (Some gitDirPath), w3))
              else invalid
          | None \<Rightarrow> invalid)"
    if "quiet w" "fs w ?git = Some (File content)"
    using that q1[OF that(1)]
    by (simp add: resolve_try_def statSync_quiet readFileSync_quiet_file Let_def)
  have q2: "quiet (w\<lparr>calls := calls w @ [StatSync ?git, ReadFileSync ?git]\<rparr>)" if "quiet w"
    using that by (simp add: quiet_def)
  have c2: "fst (resolveGitDirectory rt repoPath w) = Inr (path_resolve rt [repoPath, g])"
    if "quiet w" "fs w ?git = Some (File content)" "match_gitdir (trim content) = Some g"
      "fs w (path_resolve rt [repoPath, g]) \<noteq> None"
    using rd[OF that(1,2)] that(3,4) match_gitdir_nonempty[OF that(3)] q2[OF that(1)]
    by (simp add: resolveGitDirectory_def Let_def existsSync_quiet)
  have c3: "fst (resolveGitDirectory rt repoPath w)
        = Inl (Error None (''Failed to resolve git directory for '' @ repoPath
              @ '': Submodule git directory does not exist: ''
              @ path_resolve rt [repoPath, g]))"
    if "quiet w" "fs w ?git = Some (File content)" "match_gitdir (trim content) = Some g"
      "fs w (path_resolve rt [repoPath, g]) = None"
    using rd[OF that(1,2)] that(3,4) match_gitdir_nonempty[OF that(3)] q2[OF that(1)]
    by (simp add: resolveGitDirectory_def Let_def existsSync_quiet)
  have c4: "fst (resolveGitDirectory rt repoPath w)
        = Inl (Error None (''Failed to resolve git directory for '' @ repoPath
              @ '': Invalid .git file format in '' @ ?git @ '': '' @ trim content))"
    if "quiet w" "fs w ?git = Some (File content)" "take 7 (trim content) \<noteq> ''gitdir:''"
    using rd[OF that(1,2)] match_gitdir_prefix[OF that(3)]
    by (simp add: resolveGitDirectory_def Let_def)
  have c5: "fst (resolveGitDirectory rt repoPath w)
        = Inl (Error None (''No .git directory or file found in '' @ repoPath))"
    if "quiet w" "fs w ?git = None"
    using that
    by (simp add: resolveGitDirectory_def resolve_try_def statSync_quiet fs_error_def Let_def)
  have c6: "match_gitdir (trim (''gitdir: '' @ line @ [CHR 0x0A])) = Some line"
    if "line \<noteq> []" "\<not> is_space (hd line)" "\<not> is_space (last line)"
      "list_all (\<lambda>c. \<not> line_terminator c) line"
    using trim_gitdir_line[OF that(1,2,3)] match_gitdir_line[OF that(1,2,4)] by simp
  have c7: "\<exists>m. e = Error None (m @ repoPath) \<or>
           e = Error None (''Failed to resolve git directory for '' @ repoPath @ '': '' @ m)"
    if "fst (resolveGitDirectory rt repoPath w) = Inl e"
    using resolveGitDirectory_names_path[OF that] by blast
  from c1 c2 c3 c4 c5 c6 c7 show ?thesis by blast
qed

lemma demo_paths:
  "path_join (demo_runtime table) ''/repo/sub'' ''.git'' = ''/repo/sub/.git''"
  "path_join (demo_runtime table) ''/repo'' ''.git'' = ''/repo/.git''"
  "path_resolve (demo_runtime table) [''/repo/sub'', ''../.git/modules/sub'']
     = ''/repo/.git/modules/sub''"
  by (simp_all add: demo_runtime_def posix_join_def posix_resolve_def posix_normalize_def
        resolve_segment_def)

theorem resolveGitDirectory_cases_witness:
  "fst (resolveGitDirectory (demo_runtime []) ''/repo'' (repo_world [] 0)) = Inr ''/repo/.git'' \<and>
   fst (resolveGitDirectory (demo_runtime []) ''/repo/sub''
          (submodule_world (''gitdir: ../.git/modules/sub'' @ [CHR 0x0A])
             [(''/repo/.git/modules/sub'', Dir)]))
     = Inr ''/repo/.git/modules/sub'' \<and>
   fst (resolveGitDirectory (demo_runtime []) ''/repo/sub''
          (submodule_world (''gitdir: ../.git/modules/sub'' @ [CHR 0x0A]) []))
     = Inl (Error None ''Failed to resolve git directory for /repo/sub: Submodule git directory does not exist: /repo/.git/modules/sub'') \<and>
   fst (resolveGitDirectory (demo_runtime []) ''/repo/sub''
          (submodule_world (''../.git/modules/sub'' @ [CHR 0x0A])
             [(''/repo/.git/modules/sub'', Dir)]))
     = Inl (Error None ''Failed to resolve git directory for /repo/sub: Invalid .git file format in /repo/sub/.git: ../.git/modules/sub'') \<and>
   fst (resolveGitDirectory (demo_runtime []) ''/repo/sub'' (world_with [] 0 []))
     = Inl (Error None ''No .git directory or file found in /repo/sub'')"
proof -
  let ?rt = "demo_runtime []"
  let ?line = "''../.git/modules/sub''"
  let ?content = "''gitdir: ../.git/modules/sub'' @ [CHR 0x0A]"
  have m: "match_gitdir (trim ?content) = Some ?line"
    using resolveGitDirectory_cases[where line = ?line]
    by (simp add: is_space_def line_terminator_def)
  have a: "fst (resolveGitDirectory ?rt ''/repo'' (repo_world [] 0)) = Inr ''/repo/.git''"
    using resolveGitDirectory_cases[where rt = ?rt and repoPath = "''/repo''"
        and w = "repo_world [] 0"]
    by (simp add: demo_paths repo_world_def world_with_def quiet_def)
  have b: "fst (resolveGitDirectory ?rt ''/repo/sub''
          (submodule_world ?content [(''/repo/.git/modules/sub'', Dir)]))
     = Inr ''/repo/.git/modules/sub''"
    using resolveGitDirectory_cases[where rt = ?rt and repoPath = "''/repo/sub''"
        and w = "submodule_world ?content [(''/repo/.git/modules/sub'', Dir)]"
        and content = ?content and g = ?line] m
    by (simp add: demo_paths submodule_world_def world_with_def quiet_def)
  have c: "fst (resolveGitDirectory ?rt ''/repo/sub'' (submodule_world ?content []))
     = Inl (Error None ''Failed to resolve git directory for /repo/sub: Submodule git directory does not exist: /repo/.git/modules/sub'')"
    using resolveGitDirectory_cases[where rt = ?rt and repoPath = "''/repo/sub''"
        and w = "submodule_world ?content []"
        and content = ?content and g = ?line] m
    by (simp add: demo_paths submodule_world_def world_with_def quiet_def)
  have t: "trim (''../.git/modules/sub'' @ [CHR 0x0A]) = ''../.git/modules/sub''"
    by (simp add: trim_def is_space_def)
  have d: "fst (resolveGitDirectory ?rt ''/repo/sub''
          (submodule_world (''../.git/modules/sub'' @ [CHR 0x0A])
             [(''/repo/.git/modules/sub'', Dir)]))
     = Inl (Error None ''Failed to resolve git directory for /repo/sub: Invalid .git file format in /repo/sub/.git: ../.git/modules/sub'')"
    using resolveGitDirectory_cases[where rt = ?rt and repoPath = "''/repo/sub''"
        and w = "submodule_world (''../.git/modules/sub'' @ [CHR 0x0A])
             [(''/repo/.git/modules/sub'', Dir)]"
        and content = "''../.git/modules/sub'' @ [CHR 0x0A]"] t
    by (simp add: demo_paths submodule_world_def world_with_def quiet_def)
  have e: "fst (resolveGitDirectory ?rt ''/repo/sub'' (world_with [] 0 []))
     = Inl (Error None ''No .git directory or file found in /repo/sub'')"
    using resolveGitDirectory_cases[where rt = ?rt and repoPath = "''/repo/sub''"
        and w = "world_with [] 0 []"]
    by (simp add: demo_paths world_with_def quiet_def)
  from a b c d e show ?thesis by blast
qed

section \<open>Several callers on one lock path\<close>

subsection \<open>One caller after another\<close>

lemmas lock_eval = lock_def lock_loop.simps lock_attempt_def before_create_def check_stale_def lockAge_def
  existsSync_def readFileSync_def writeFileSync_wx_def unlinkSync_def begin_call_def interfere_def
  world_with_def demo_runtime_def FileLock_new_def nothing_def apply_changes_def lockData_def
  Let_def




text \<open>
  A waiting caller can also fail at once, without having used its retries: the holder
  releases between the caller's \<^verbatim>\<open>existsSync\<close> and its \<^verbatim>\<open>readFileSync\<close>, the read
  fails with \<^verbatim>\<open>ENOENT\<close>, and that error is raised like any other that is not
  \<^verbatim>\<open>EEXIST\<close>.
\<close>

lemma lock_fails_when_released_during_attempt:
  "fst (lock (other_runtime 60000) (FileLock_new demo_lock_path)
      (world_with [(demo_lock_path, File (render_lock (other_lock 60000)))] 61000
         [nothing, \<lparr>elapsed = 0, changes = [(demo_lock_path, None)], fault = None\<rparr>]))
     = Inl (Error None (''Failed to acquire file lock /repo/.git/kodrdriv.lock: ''
          @ ''ENOENT: no such file or directory, open '' @ [CHR 0x27]
          @ ''/repo/.git/kodrdriv.lock'' @ [CHR 0x27])) \<and>
   new_calls (world_with [(demo_lock_path, File (render_lock (other_lock 60000)))] 61000
         [nothing, \<lparr>elapsed = 0, changes = [(demo_lock_path, None)], fault = None\<rparr>])
      (snd (snd (lock (other_runtime 60000) (FileLock_new demo_lock_path)
      (world_with [(demo_lock_path, File (render_lock (other_lock 60000)))] 61000
         [nothing, \<lparr>elapsed = 0, changes = [(demo_lock_path, None)], fault = None\<rparr>]))))
     = [ExistsSync demo_lock_path, ReadFileSync demo_lock_path]"
  by (simp add: lock_eval other_runtime_def new_calls_def fs_error_def demo_lock_path_def)





lemma lock_attempt_quiet_free:
  assumes "quiet w" "fs w (lockPath self) = None"
  shows "lock_attempt rt self w =
     (Inr (), w\<lparr>calls := calls w @ [ExistsSync (lockPath self),
             WriteFileSync (lockPath self) (JSON_stringify rt (lockData rt (clock w)))],
        fs := (fs w)(lockPath self \<mapsto> File (JSON_stringify rt (lockData rt (clock w))))\<rparr>)"
  using assms
  by (simp add: lock_attempt_def before_create_def existsSync_def writeFileSync_wx_def
        begin_call_quiet quiet_def Let_def)

lemma lock_attempt_quiet_reclaimable:
  assumes "quiet w" "fs w (lockPath self) = Some (File content)"
    and "reclaimable rt self content (clock w)"
  shows "lock_attempt rt self w =
     (Inr (), w\<lparr>calls := calls w @ [ExistsSync (lockPath self), ReadFileSync (lockPath self),
             UnlinkSync (lockPath self),
             WriteFileSync (lockPath self) (JSON_stringify rt (lockData rt (clock w)))],
        fs := (fs w)(lockPath self \<mapsto> File (JSON_stringify rt (lockData rt (clock w))))\<rparr>)"
proof -
  let ?p = "lockPath self"
  let ?w1 = "w\<lparr>calls := calls w @ [ExistsSync ?p]\<rparr>"
  let ?w2 = "w\<lparr>calls := calls w @ [ExistsSync ?p, ReadFileSync ?p]\<rparr>"
  let ?w3 = "w\<lparr>calls := calls w @ [ExistsSync ?p, ReadFileSync ?p, UnlinkSync ?p],
               fs := (fs w)(?p := None)\<rparr>"
  have e: "existsSync ?p w = (True, ?w1)" using assms(1,2) by (simp add: existsSync_quiet)
  have q1: "quiet ?w1" using assms(1) by (simp add: quiet_def)
  have r: "readFileSync ?p ?w1 = (Inr content, ?w2)"
    using readFileSync_quiet_file[OF q1, of ?p content] assms(2) by simp
  have q2: "quiet ?w2" using assms(1) by (simp add: quiet_def)
  have u: "unlinkSync ?p ?w2 = (Inr (), ?w3)"
    using unlinkSync_quiet_file[OF q2, of ?p content] assms(2) by simp
  have b: "before_create rt self w = (Inr (), ?w3)"
    using e r u assms(3)
    by (auto simp: before_create_def check_stale_def reclaimable_def split: sum.splits)
  have q3: "quiet ?w3" using assms(1) by (simp add: quiet_def)
  show ?thesis
    using b writeFileSync_wx_quiet_absent[OF q3, of ?p] by (simp add: lock_attempt_def Let_def)
qed



lemma lock_attempt_quiet_kept:
  assumes "quiet w" "fs w (lockPath self) = Some (File content)"
    and "\<not> reclaimable rt self content (clock w)"
  shows "lock_attempt rt self w =
           (Inl (fs_error ''EEXIST'' ''file already exists'' ''open'' (lockPath self)),
            w\<lparr>calls := calls w @ [ExistsSync (lockPath self), ReadFileSync (lockPath self),
                 WriteFileSync (lockPath self) (JSON_stringify rt (lockData rt (clock w)))]\<rparr>)"
proof -
  from assms(3) obtain age where "lockAge rt content (clock w) = Inr age"
      "\<not> js_gt age (lockTimeout self)"
    by (auto simp: reclaimable_def split: sum.splits)
  from lock_attempt_young_quiet[OF assms(1,2) this] show ?thesis .
qed

subsection \<open>Interleaved processes and the calls of one caller\<close>

text \<open>
  An attempt of a process left to itself ends as \<open>lock_attempt\<close> does in a world in which
  nothing interferes: with the lock acquired and the same lock file, or in the
  \<^verbatim>\<open>catch\<close> block with the same error.
\<close>

lemma in_attempt_catch_block [simp]: "\<not> in_attempt (catch_block self a d e)"
  by (cases e) (simp_all add: catch_block_def fatal_error_def)

lemma solo_attempt_agrees:
  assumes q: "quiet w" and nd: "fs w (lockPath self) = map_option File file"
  shows "solo 5 rt self (AtExists a d (clock w)) file (clock w) =
     (case lock_attempt rt self w of
        (Inr u, w1) \<Rightarrow> (Holding, file_at (lockPath self) w1)
      | (Inl e, w1) \<Rightarrow> (catch_block self a d e, file_at (lockPath self) w1))"
proof (cases "file")
  case None
  with nd have f: "fs w (lockPath self) = None" by simp
  have "lock_attempt rt self w =
     (Inr (), w\<lparr>calls := calls w @ [ExistsSync (lockPath self),
             WriteFileSync (lockPath self) (JSON_stringify rt (lockData rt (clock w)))],
        fs := (fs w)(lockPath self \<mapsto> File (JSON_stringify rt (lockData rt (clock w))))\<rparr>)"
    using lock_attempt_quiet_free[OF q f] .
  then show ?thesis using None by (simp add: eval_nat_numeral file_at_def)
next
  case (Some content)
  with nd have f: "fs w (lockPath self) = Some (File content)" by simp
  show ?thesis
  proof (cases "reclaimable rt self content (clock w)")
    case False
    from lock_attempt_quiet_kept[OF q f False]
    show ?thesis using Some False f by (simp add: eval_nat_numeral file_at_def)
  next
    case True
    have "lock_attempt rt self w =
     (Inr (), w\<lparr>calls := calls w @ [ExistsSync (lockPath self), ReadFileSync (lockPath self),
             UnlinkSync (lockPath self),
             WriteFileSync (lockPath self) (JSON_stringify rt (lockData rt (clock w)))],
        fs := (fs w)(lockPath self \<mapsto> File (JSON_stringify rt (lockData rt (clock w))))\<rparr>)"
      using lock_attempt_quiet_reclaimable[OF q f True] .
    then show ?thesis using Some True by (simp add: eval_nat_numeral file_at_def)
  qed
qed

subsection \<open>At most one owner while no lock file is reclaimed\<close>

lemma owns_loop_head [simp]: "\<not> owns (loop_head self a d t)"
  by (simp add: loop_head_def)

lemma owns_catch_block [simp]: "\<not> owns (catch_block self a d e)"
  by (cases e) (simp_all add: catch_block_def fatal_error_def)


lemma mstep_length [simp]: "length (procs (mstep rts self s ev)) = length (procs s)"
  by (auto simp: mstep_def split: event.splits prod.splits)

lemma mrun_length [simp]: "length (procs (mrun rts self s evs)) = length (procs s)"
  unfolding mrun_def by (induction evs arbitrary: s) simp_all





subsection \<open>Two and three processes\<close>

lemma two_idle: "replicate 2 Idle = [Idle, Idle]"
  by (simp add: numeral_2_eq_2)

lemmas machine_eval = two_idle mrun_def mstep_def all_idle_def two_runtimes_def loop_head_def catch_block_def
  FileLock_new_def reclaimable_def lockAge_def lockData_def second_runtime_def demo_runtime_def
  fs_error_def


text \<open>
  The first process acquires and works under the lock for 30001 milliseconds; the other one
  then finds the lock file stale, removes it and acquires: both work under the lock.
\<close>

lemma two_processes_holding_after_stale_reclaim:
  "procs (mrun two_runtimes (FileLock_new demo_lock_path) (all_idle 2 0)
     [Act 0 None, Act 0 None, Act 0 None, Tick 30001,
      Act 1 None, Act 1 None, Act 1 None, Act 1 None, Act 1 None, Act 1 None])
     = [Holding, Holding] \<and>
   lock_file (mrun two_runtimes (FileLock_new demo_lock_path) (all_idle 2 0)
     [Act 0 None, Act 0 None, Act 0 None, Tick 30001,
      Act 1 None, Act 1 None, Act 1 None, Act 1 None, Act 1 None, Act 1 None])
     = Some (render_lock (lockData second_runtime 30001))"
  by (simp add: machine_eval)

text \<open>
  Three processes.  The first acquires at time 0 and works under the lock.  At time 30001
  the second and the third both find the lock file stale and decide to remove it.  The second
  removes it and acquires with a fresh lock file.  The third then removes that fresh file,
  which it has never read and which is not stale, and acquires too: all three work under the
  lock.
\<close>

lemma three_idle: "replicate 3 Idle = [Idle, Idle, Idle]"
  by (simp add: numeral_3_eq_3)

lemma three_processes_holding_after_race:
  "procs (mrun three_runtimes (FileLock_new demo_lock_path) (all_idle 3 0)
     [Act 0 None, Act 0 None, Act 0 None, Tick 30001,
      Act 1 None, Act 1 None, Act 1 None, Act 1 None,
      Act 2 None, Act 2 None, Act 2 None, Act 2 None,
      Act 1 None, Act 1 None])
     = [Holding, Holding, AtUnlink 0 100 30001] \<and>
   lock_file (mrun three_runtimes (FileLock_new demo_lock_path) (all_idle 3 0)
     [Act 0 None, Act 0 None, Act 0 None, Tick 30001,
      Act 1 None, Act 1 None, Act 1 None, Act 1 None,
      Act 2 None, Act 2 None, Act 2 None, Act 2 None,
      Act 1 None, Act 1 None])
     = Some (render_lock (lockData second_runtime 30001)) \<and>
   \<not> reclaimable third_runtime (FileLock_new demo_lock_path)
      (render_lock (lockData second_runtime 30001)) 30001 \<and>
   lock_file (mrun three_runtimes (FileLock_new demo_lock_path) (all_idle 3 0)
     [Act 0 None, Act 0 None, Act 0 None, Tick 30001,
      Act 1 None, Act 1 None, Act 1 None, Act 1 None,
      Act 2 None, Act 2 None, Act 2 None, Act 2 None,
      Act 1 None, Act 1 None, Act 2 None])
     = None \<and>
   procs (mrun three_runtimes (FileLock_new demo_lock_path) (all_idle 3 0)
     [Act 0 None, Act 0 None, Act 0 None, Tick 30001,
      Act 1 None, Act 1 None, Act 1 None, Act 1 None,
      Act 2 None, Act 2 None, Act 2 None, Act 2 None,
      Act 1 None, Act 1 None, Act 2 None, Act 2 None])
     = [Holding, Holding, Holding]"
  by (simp add: three_idle mrun_def mstep_def all_idle_def three_runtimes_def third_runtime_def
        loop_head_def catch_block_def FileLock_new_def reclaimable_def lockAge_def lockData_def
        second_runtime_def demo_runtime_def fs_error_def)

subsection \<open>What holds of concurrent callers\<close>





end
